theory Spec2Isabelle
  imports Main "HOL-Library.Word" "HOL-Library.Sublist"
begin

section \<open>The future token (use\_future.h)\<close>

subsection \<open>The standard library's pieces the handlers use\<close>

text \<open>
  \<open>std::error_code\<close>: an \<open>int\<close> value and the address of its category. Its conversion to
  \<open>bool\<close> is \<open>value() != 0\<close>.
\<close>

record error_code =
  ec_value :: "32 word"
  ec_category :: nat

definition error_code_bool :: "error_code \<Rightarrow> bool" where
  "error_code_bool e = (ec_value e \<noteq> 0)"

datatype future_errc = Promise_already_satisfied | Broken_promise

text \<open>
  What a C++ \<open>throw\<close> carries: \<open>std::system_error\<close> wrapping an error code,
  \<open>std::future_error\<close>, or an object of user code (named by a string here).
  An \<open>exception_ptr\<close> is \<open>exn option\<close>, and a function that may throw returns
  \<open>exn + 'a\<close>, \<open>Inl\<close> being the throw.
\<close>

datatype exn = System_error error_code | Future_error future_errc | User_exception string

text \<open>
  The shared state of a \<open>std::promise\<close> and its future. \<open>set_value\<close> and
  \<open>set_exception\<close> store into an empty state and throw \<open>future_error\<close> otherwise;
  \<open>future::get\<close> returns the value, rethrows the failure, and does not return
  (\<open>None\<close>) while the state is empty.
\<close>

datatype 'a shared_state = Empty | Has_value 'a | Has_exception exn

definition set_value :: "'a \<Rightarrow> 'a shared_state \<Rightarrow> exn + 'a shared_state" where
  "set_value v p =
     (case p of Empty \<Rightarrow> Inr (Has_value v)
      | _ \<Rightarrow> Inl (Future_error Promise_already_satisfied))"

definition set_exception :: "exn \<Rightarrow> 'a shared_state \<Rightarrow> exn + 'a shared_state" where
  "set_exception e p =
     (case p of Empty \<Rightarrow> Inr (Has_exception e)
      | _ \<Rightarrow> Inl (Future_error Promise_already_satisfied))"

definition future_get :: "'a shared_state \<Rightarrow> (exn + 'a) option" where
  "future_get p =
     (case p of Empty \<Rightarrow> None
      | Has_value v \<Rightarrow> Some (Inr v)
      | Has_exception e \<Rightarrow> Some (Inl e))"

subsection \<open>\<open>__value_pack\<close>\<close>

text \<open>
  The member typedef \<open>_Type\<close> of the three \<open>__value_pack\<close> templates, as a function of
  the template's argument list. \<open>'t\<close> is the universe of C++ types and \<open>decay\<close> is
  \<open>std::decay\<close>, which the header takes from the standard library.
\<close>

datatype 't pack_type = Void | Plain 't | Std_tuple "'t list"

fun value_pack_Type :: "('t \<Rightarrow> 't) \<Rightarrow> 't list \<Rightarrow> 't pack_type" where
  "value_pack_Type decay [] = Void"
| "value_pack_Type decay [arg] = Plain (decay arg)"
| "value_pack_Type decay args = Std_tuple (map decay args)"

text \<open>
  The values of those types: nothing, the argument itself, or the tuple of the
  arguments in order. \<open>_Apply\<close> stores the packed arguments with \<open>set_value\<close>.
\<close>

datatype 'v packed = Unit | Single 'v | Tuple "'v list"

fun value_pack_Apply :: "'v packed shared_state \<Rightarrow> 'v list \<Rightarrow> exn + 'v packed shared_state" where
  "value_pack_Apply p [] = set_value Unit p"
| "value_pack_Apply p [arg] = set_value (Single arg) p"
| "value_pack_Apply p args = set_value (Tuple args) p"

text \<open>
  The packing rules in the specification's words: no argument gives unit, one argument
  gives that argument, two or more give the tuple of the arguments in order. A packed
  value has a pack type when its shape is the type's and each component has the
  component's type (\<open>has\<close> is the typing of values).
\<close>

definition packed_value :: "'v list \<Rightarrow> 'v packed" where
  "packed_value args =
     (if length args = 0 then Unit
      else if length args = 1 then Single (hd args)
      else Tuple args)"

fun packed_has_type :: "('v \<Rightarrow> 't \<Rightarrow> bool) \<Rightarrow> 'v packed \<Rightarrow> 't pack_type \<Rightarrow> bool" where
  "packed_has_type has Unit Void = True"
| "packed_has_type has (Single v) (Plain t) = has v t"
| "packed_has_type has (Tuple vs) (Std_tuple ts) = list_all2 has vs ts"
| "packed_has_type has _ _ = False"

subsection \<open>\<open>__promise_handler\<close>\<close>

text \<open>
  All three \<open>__promise_handler\<close> templates have one member, the shared pointer to the
  promise; the model holds the shared state it points to. The constructor makes a fresh
  promise. \<open>operator()\<close> of the primary template packs its arguments; the
  \<open>error_code\<close> and \<open>exception_ptr\<close> specialisations look at the leading argument
  first.
\<close>

record 'v promise_handler =
  M_promise :: "'v packed shared_state"

definition promise_handler_ctor :: "'v promise_handler" where
  "promise_handler_ctor = \<lparr>M_promise = Empty\<rparr>"

definition promise_handler_call ::
  "'v promise_handler \<Rightarrow> 'v list \<Rightarrow> exn + 'v promise_handler" where
  "promise_handler_call h args =
     (case value_pack_Apply (M_promise h) args of
        Inl x \<Rightarrow> Inl x
      | Inr p \<Rightarrow> Inr (h\<lparr>M_promise := p\<rparr>))"

definition promise_handler_error_code_call ::
  "'v promise_handler \<Rightarrow> error_code \<Rightarrow> 'v list \<Rightarrow> exn + 'v promise_handler" where
  "promise_handler_error_code_call h e args =
     (case (if error_code_bool e
            then set_exception (System_error e) (M_promise h)
            else value_pack_Apply (M_promise h) args) of
        Inl x \<Rightarrow> Inl x
      | Inr p \<Rightarrow> Inr (h\<lparr>M_promise := p\<rparr>))"

definition promise_handler_exception_ptr_call ::
  "'v promise_handler \<Rightarrow> exn option \<Rightarrow> 'v list \<Rightarrow> exn + 'v promise_handler" where
  "promise_handler_exception_ptr_call h e args =
     (case (case e of
              Some x \<Rightarrow> set_exception x (M_promise h)
            | None \<Rightarrow> value_pack_Apply (M_promise h) args) of
        Inl x \<Rightarrow> Inl x
      | Inr p \<Rightarrow> Inr (h\<lparr>M_promise := p\<rparr>))"

subsection \<open>\<open>__packaged_token\<close> and \<open>__packaged_handler\<close>\<close>

text \<open>
  The user's callable takes the argument list and returns a value or throws. The
  handler's promise is declared for the callable's result type
  (\<open>promise<result_of<_Func(_Args...)>::type>\<close>). \<open>operator()\<close> calls the callable
  inside \<open>try\<close>; the \<open>catch (...)\<close> clause stores the exception in the promise. The
  statement in the \<open>try\<close> block is the bare call: what the callable returns is not used.
\<close>

record ('v, 'r, 'al) packaged_token =
  tok_func :: "'v list \<Rightarrow> exn + 'r"
  tok_allocator :: 'al

record ('v, 'r, 'al) packaged_handler =
  pk_promise :: "'r shared_state"
  pk_func :: "'v list \<Rightarrow> exn + 'r"
  pk_allocator :: 'al

definition packaged_handler_ctor ::
  "('v, 'r, 'al) packaged_token \<Rightarrow> ('v, 'r, 'al) packaged_handler" where
  "packaged_handler_ctor token =
     \<lparr>pk_promise = Empty, pk_func = tok_func token, pk_allocator = tok_allocator token\<rparr>"

definition packaged_handler_call ::
  "('v, 'r, 'al) packaged_handler \<Rightarrow> 'v list \<Rightarrow> exn + ('v, 'r, 'al) packaged_handler" where
  "packaged_handler_call h args =
     (case pk_func h args of
        Inr r \<Rightarrow> Inr h
      | Inl x \<Rightarrow>
          (case set_exception x (pk_promise h) of
             Inl y \<Rightarrow> Inl y
           | Inr p \<Rightarrow> Inr (h\<lparr>pk_promise := p\<rparr>)))"

section \<open>The scheduler (scheduler.h)\<close>

subsection \<open>State\<close>

text \<open>
  \<open>size_t\<close> is taken as 64 bits wide; \<open>atomic<size_t>\<close> arithmetic wraps around.
  A time point of the steady clock and a duration are 64-bit signed counts of the
  clock's ticks (\<open>steady_clock::rep\<close>; durations are taken in the clock's own period):
  a word read with \<open>sint\<close>, whose addition wraps around.
\<close>

type_synonym size_t = "64 word"

type_synonym ticks = "64 word"

text \<open>The calls the scheduler makes on its mutex and its condition variable, in order.\<close>

datatype event = Mutex_lock | Mutex_unlock | Notify_one | Notify_all | Wait_until ticks

text \<open>
  \<open>__scheduler_op<_Func>\<close> has two members: the callable and the pointer to the owning
  scheduler, null after the object was moved from. A pointer to an operation on the heap
  is the pair of its address and the object there.
\<close>

record 'f scheduler_op =
  M_func :: 'f
  M_owner :: "nat option"

type_synonym 'f op_ptr = "nat \<times> 'f scheduler_op"

text \<open>
  \<open>_Context\<close>: the private queue and the \<open>unique_lock\<close>, of which the model keeps
  \<open>owns_lock()\<close>. The members \<open>_M_scheduler\<close> and \<open>_M_context\<close> are the context's
  entry in the thread's call stack, which carries the scheduler's address as its key.
\<close>

record 'f Context =
  M_private_queue :: "'f op_ptr list"
  M_lock_owns :: bool

text \<open>
  The model follows one thread working on one scheduler. The first five fields are the
  scheduler object (its address, and the members \<open>_M_queue\<close>, \<open>_M_outstanding_work\<close>,
  \<open>_M_stopped\<close>, \<open>_M_one_thread\<close>); \<open>call_stack\<close> is the thread-local chain of
  \<open>__call_stack<__scheduler, _Context>\<close>, most recent entry first, each \<open>_Context\<close>
  stored in its entry. The steady clock is input to the model: \<open>clock\<close> is what the
  next call of \<open>steady_clock::now()\<close> returns and \<open>clock_later\<close> what the calls after
  it return, in order. \<open>next_block\<close> and \<open>freed\<close> are the allocator; \<open>trace\<close> lists
  the mutex and condition-variable calls made so far; \<open>upcalls\<close> lists the addresses of
  the operations that a dequeue primitive has handed to \<open>_Complete\<close>, in order.
\<close>

record 'f world =
  this_ptr :: nat
  M_queue :: "'f op_ptr list"
  M_outstanding_work :: size_t
  M_stopped :: bool
  M_one_thread :: bool
  call_stack :: "(nat \<times> 'f Context) list"
  clock :: ticks
  clock_later :: "ticks list"
  next_block :: nat
  freed :: "nat list"
  trace :: "event list"
  upcalls :: "nat list"

text \<open>What a call of user code or of a scheduler function leaves: a thrown exception or a value.\<close>

type_synonym ('a, 'f) outcome = "(exn + 'a) \<times> 'f world"

subsection \<open>Collaborators that are not in the two headers\<close>

text \<open>
  Three collaborators of the scheduler live in headers that are not part of the two
  files: the operation queue \<open>__op_queue\<close> (operation.h), the reentrancy registry
  \<open>__call_stack\<close> (call\_stack.h) and the allocator \<open>__small_block_recycler\<close>
  (small\_block\_recycler.h).
\<close>

text \<open>
  Modelled from the spec: \<open>__op_queue::_Empty\<close> (operation.h is missing): true iff the
  queue has no elements.
\<close>

definition op_queue_Empty :: "'a list \<Rightarrow> bool" where
  "op_queue_Empty q = (q = [])"

text \<open>
  Modelled from the spec: \<open>__op_queue::_Push\<close> of one operation (operation.h is missing):
  append at the tail.
\<close>

definition op_queue_Push :: "'a list \<Rightarrow> 'a \<Rightarrow> 'a list" where
  "op_queue_Push q x = q @ [x]"

text \<open>
  Modelled from the spec: \<open>__op_queue::_Push\<close> of a queue (operation.h is missing):
  splice the other queue onto the tail, keeping the order of both; the other queue is
  emptied. The result is the pair of the two queues afterwards.
\<close>

definition op_queue_Push_all :: "'a list \<Rightarrow> 'a list \<Rightarrow> 'a list \<times> 'a list" where
  "op_queue_Push_all q other = (q @ other, [])"

text \<open>
  Modelled from the spec: \<open>__op_queue::_Front\<close> (operation.h is missing): the head,
  without removing it; null for the empty queue.
\<close>

definition op_queue_Front :: "'a list \<Rightarrow> 'a option" where
  "op_queue_Front q = (case q of [] \<Rightarrow> None | x # _ \<Rightarrow> Some x)"

text \<open>
  Modelled from the spec: \<open>__op_queue::_Pop\<close> (operation.h is missing): detach the head.
  The scheduler pops non-empty queues only.
\<close>

definition op_queue_Pop :: "'a list \<Rightarrow> 'a list" where
  "op_queue_Pop q = (case q of [] \<Rightarrow> [] | _ # rest \<Rightarrow> rest)"

text \<open>
  Modelled from the spec: \<open>__call_stack::_Contains\<close> (call\_stack.h is missing): the
  registry is a thread-local chain of (key, value) pairs; \<open>contains\<close> returns the most
  recent value registered under the key, or null.
\<close>

fun Contains :: "nat \<Rightarrow> (nat \<times> 'c) list \<Rightarrow> 'c option" where
  "Contains k [] = None"
| "Contains k ((k', c) # cs) = (if k' = k then Some c else Contains k cs)"

text \<open>
  Modelled from the spec: a write through the pointer that \<open>__call_stack::_Contains\<close>
  returned (call\_stack.h is missing): the most recent value under the key is changed
  in place.
\<close>

fun call_stack_write :: "nat \<Rightarrow> ('c \<Rightarrow> 'c) \<Rightarrow> (nat \<times> 'c) list \<Rightarrow> (nat \<times> 'c) list" where
  "call_stack_write k g [] = []"
| "call_stack_write k g ((k', c) # cs) =
     (if k' = k then (k', g c) # cs else (k', c) # call_stack_write k g cs)"

text \<open>
  Modelled from the spec: the allocation in \<open>__small_block_recycler::_Create\<close>
  (small\_block\_recycler.h is missing), as a default heap allocator: the next unused
  address.
\<close>

definition allocate :: "'f world \<Rightarrow> nat \<times> 'f world" where
  "allocate w = (next_block w, w\<lparr>next_block := Suc (next_block w)\<rparr>)"

text \<open>
  Modelled from the spec: the release of a block by \<open>__small_block_recycler\<close>'s deleter
  and \<open>_Destroy\<close> (small\_block\_recycler.h is missing): the block is handed back.
\<close>

definition deallocate :: "nat \<Rightarrow> 'f world \<Rightarrow> 'f world" where
  "deallocate p w = w\<lparr>freed := freed w @ [p]\<rparr>"

text \<open>
  \<open>steady_clock::now()\<close>: the reading, and the clock moved on to its next reading.
  When the readings given are used up the clock stands still.
\<close>

definition now :: "'f world \<Rightarrow> ticks \<times> 'f world" where
  "now w =
     (clock w,
      case clock_later w of
        [] \<Rightarrow> w
      | t # ts \<Rightarrow> w\<lparr>clock := t, clock_later := ts\<rparr>)"

text \<open>The mutex and the condition variable: each call is recorded.\<close>

definition emit :: "event list \<Rightarrow> 'f world \<Rightarrow> 'f world" where
  "emit es w = w\<lparr>trace := trace w @ es\<rparr>"

subsection \<open>\<open>__scheduler\<close>: construction, work counting, stop and reset\<close>

definition scheduler_ctor :: "nat \<Rightarrow> size_t \<Rightarrow> 'f world" where
  "scheduler_ctor addr concurrency_hint =
     \<lparr>this_ptr = addr, M_queue = [], M_outstanding_work = 0, M_stopped = False,
      M_one_thread = (concurrency_hint = 1), call_stack = [], clock = 0, clock_later = [],
      next_block = 0, freed = [], trace = [], upcalls = []\<rparr>"

definition Work_started :: "'f world \<Rightarrow> 'f world" where
  "Work_started w = w\<lparr>M_outstanding_work := M_outstanding_work w + 1\<rparr>"

definition Stop :: "'f world \<Rightarrow> 'f world" where
  "Stop w = emit [Mutex_unlock] (emit [Notify_all] ((emit [Mutex_lock] w)\<lparr>M_stopped := True\<rparr>))"

definition Work_finished :: "'f world \<Rightarrow> 'f world" where
  "Work_finished w =
     (let w1 = w\<lparr>M_outstanding_work := M_outstanding_work w - 1\<rparr>
      in if M_outstanding_work w1 = 0 then Stop w1 else w1)"

definition Stopped :: "'f world \<Rightarrow> bool \<times> 'f world" where
  "Stopped w = (M_stopped w, emit [Mutex_unlock] (emit [Mutex_lock] w))"

definition Reset :: "'f world \<Rightarrow> 'f world" where
  "Reset w = emit [Mutex_unlock] ((emit [Mutex_lock] w)\<lparr>M_stopped := False\<rparr>)"

subsection \<open>\<open>__scheduler_op\<close>\<close>

text \<open>
  The constructor counts the work; the move constructor takes the callable and the
  owner and nulls the owner of its source; the destructor calls \<open>_Work_finished\<close> when
  the owner is not null.
\<close>

definition scheduler_op_ctor :: "'f \<Rightarrow> 'f world \<Rightarrow> 'f scheduler_op \<times> 'f world" where
  "scheduler_op_ctor f w = (\<lparr>M_func = f, M_owner = Some (this_ptr w)\<rparr>, Work_started w)"

definition scheduler_op_move :: "'f scheduler_op \<Rightarrow> 'f scheduler_op \<times> 'f scheduler_op" where
  "scheduler_op_move s = (\<lparr>M_func = M_func s, M_owner = M_owner s\<rparr>, s\<lparr>M_owner := None\<rparr>)"

definition scheduler_op_dtor :: "'f scheduler_op \<Rightarrow> 'f world \<Rightarrow> 'f world" where
  "scheduler_op_dtor s w = (case M_owner s of Some _ \<Rightarrow> Work_finished w | None \<Rightarrow> w)"

text \<open>
  \<open>_Complete\<close>, statement by statement: \<open>__tmp\<close> is move-constructed from \<open>*this\<close>;
  \<open>__op.reset()\<close> destroys \<open>*this\<close> and frees its block; the callable of \<open>__tmp\<close>
  is called (\<open>call\<close> is what calling a \<open>_Func\<close> does: it throws or returns, and
  changes the world); \<open>__tmp\<close> is destroyed when the scope is left, by return or by
  unwinding.
\<close>

definition Complete ::
  "('f \<Rightarrow> 'f world \<Rightarrow> (unit, 'f) outcome) \<Rightarrow> 'f op_ptr \<Rightarrow> 'f world \<Rightarrow> (unit, 'f) outcome" where
  "Complete call op w =
     (let (tmp, moved_from) = scheduler_op_move (snd op);
          w1 = deallocate (fst op) (scheduler_op_dtor moved_from w);
          (r, w2) = call (M_func tmp) w1
      in (r, scheduler_op_dtor tmp w2))"

text \<open>
  \<open>_Destroy\<close> hands the operation to \<open>__small_block_recycler<>::_Destroy\<close>, which, as
  section 4.5 of the specification has it, runs the destructor and releases the block.
\<close>

definition Destroy :: "'f op_ptr \<Rightarrow> 'f world \<Rightarrow> 'f world" where
  "Destroy op w = deallocate (fst op) (scheduler_op_dtor (snd op) w)"

subsection \<open>\<open>_Post\<close> and \<open>_Dispatch\<close>\<close>

text \<open>
  \<open>_Post\<close>: \<open>_Create\<close> allocates the operation and constructs it; with \<open>_M_one_thread\<close>
  and a context of this scheduler on the thread's call stack the pointer goes to that
  context's private queue; otherwise the mutex is taken, the pointer is pushed on
  \<open>_M_queue\<close>, and \<open>notify_one\<close> is called when the front of the queue is the new
  pointer.
\<close>

definition Post :: "'f \<Rightarrow> 'f world \<Rightarrow> 'f world" where
  "Post f w =
     (let (p, w1) = allocate w;
          (obj, w2) = scheduler_op_ctor f w1;
          op = (p, obj)
      in case (if M_one_thread w2 then Contains (this_ptr w2) (call_stack w2) else None) of
           Some ctx \<Rightarrow>
             w2\<lparr>call_stack :=
                  call_stack_write (this_ptr w2)
                    (\<lambda>c. c\<lparr>M_private_queue := op_queue_Push (M_private_queue c) op\<rparr>)
                    (call_stack w2)\<rparr>
         | None \<Rightarrow>
             (let w3 = emit [Mutex_lock] w2;
                  w4 = w3\<lparr>M_queue := op_queue_Push (M_queue w3) op\<rparr>;
                  w5 = (if map_option fst (op_queue_Front (M_queue w4)) = Some p
                        then emit [Notify_one] w4 else w4)
              in emit [Mutex_unlock] w5))"

definition Dispatch ::
  "('f \<Rightarrow> 'f world \<Rightarrow> (unit, 'f) outcome) \<Rightarrow> 'f \<Rightarrow> 'f world \<Rightarrow> (unit, 'f) outcome" where
  "Dispatch call f w =
     (if Contains (this_ptr w) (call_stack w) \<noteq> None
      then call f w
      else (Inr (), Post f w))"

subsection \<open>\<open>_Context\<close>\<close>

text \<open>
  The constructor registers the context on the call stack and locks the mutex. Inside
  a run the context is the head of the chain (registrations are scoped, so whatever
  user code pushes it pops before it returns); the functions below read and write it
  there and leave the world as it is should the chain be empty. The destructor body
  flushes the private queue, then the members go: the \<open>unique_lock\<close> unlocks when it
  owns the mutex, and the registration is removed.
\<close>

definition Context_ctor :: "'f world \<Rightarrow> 'f world" where
  "Context_ctor w =
     emit [Mutex_lock]
       (w\<lparr>call_stack :=
            (this_ptr w, \<lparr>M_private_queue = [], M_lock_owns = True\<rparr>) # call_stack w\<rparr>)"

definition Context_dtor :: "'f world \<Rightarrow> 'f world" where
  "Context_dtor w =
     (case call_stack w of
        [] \<Rightarrow> w
      | (k, c) # cs \<Rightarrow>
          (let (w1, c1) =
                 (if \<not> op_queue_Empty (M_private_queue c)
                  then (let (w', c') = (if \<not> M_lock_owns c
                                        then (emit [Mutex_lock] w, c\<lparr>M_lock_owns := True\<rparr>)
                                        else (w, c));
                            (q, pq) = op_queue_Push_all (M_queue w') (M_private_queue c')
                        in (w'\<lparr>M_queue := q\<rparr>, c'\<lparr>M_private_queue := pq\<rparr>))
                  else (w, c));
               w2 = (if M_lock_owns c1 then emit [Mutex_unlock] w1 else w1)
           in w2\<lparr>call_stack := cs\<rparr>))"

definition Context_Lock :: "'f world \<Rightarrow> 'f world" where
  "Context_Lock w =
     (case call_stack w of
        [] \<Rightarrow> w
      | (k, c) # cs \<Rightarrow>
          (let (w1, c1) = (if \<not> M_lock_owns c
                           then (emit [Mutex_lock] w, c\<lparr>M_lock_owns := True\<rparr>)
                           else (w, c));
               (w2, c2) =
                 (if \<not> op_queue_Empty (M_private_queue c1)
                  then (let (q, pq) = op_queue_Push_all (M_queue w1) (M_private_queue c1)
                        in (w1\<lparr>M_queue := q\<rparr>, c1\<lparr>M_private_queue := pq\<rparr>))
                  else (w1, c1))
           in w2\<lparr>call_stack := (k, c2) # cs\<rparr>))"

text \<open>\<open>__lock.unlock()\<close> on the lock of the running context.\<close>

definition lock_unlock :: "'f world \<Rightarrow> 'f world" where
  "lock_unlock w =
     (case call_stack w of
        [] \<Rightarrow> w
      | (k, c) # cs \<Rightarrow> emit [Mutex_unlock] (w\<lparr>call_stack := (k, c\<lparr>M_lock_owns := False\<rparr>) # cs\<rparr>))"

subsection \<open>The dequeue primitives\<close>

text \<open>
  The three primitives end with the same statements: take the front of the queue, pop
  it, call \<open>notify_one\<close> unless \<open>_M_one_thread\<close> or the queue is now empty, unlock,
  complete the operation (which the model notes in \<open>upcalls\<close>), return 1. An exception
  of the callable leaves through the primitive. (The source reaches these statements with a non-empty queue; calling
  \<open>_Complete\<close> through a null front pointer has no behaviour, \<open>None\<close>.)
\<close>

definition complete_front ::
  "('f \<Rightarrow> 'f world \<Rightarrow> (unit, 'f) outcome) \<Rightarrow> 'f world \<Rightarrow> (size_t, 'f) outcome option" where
  "complete_front call w =
     (case op_queue_Front (M_queue w) of
        None \<Rightarrow> None
      | Some op \<Rightarrow>
          (let w1 = w\<lparr>M_queue := op_queue_Pop (M_queue w)\<rparr>;
               w2 = (if \<not> M_one_thread w1 \<and> \<not> op_queue_Empty (M_queue w1)
                     then emit [Notify_one] w1 else w1);
               w3 = lock_unlock w2;
               (r, w4) = Complete call op (w3\<lparr>upcalls := upcalls w3 @ [fst op]\<rparr>)
           in Some (case r of Inl x \<Rightarrow> Inl x | Inr _ \<Rightarrow> Inr 1, w4)))"

text \<open>
  No other thread is modelled, so nothing notifies the condition variable: the
  \<open>while\<close> loop around \<open>wait\<close> in \<open>_Do_run_one\<close> never ends once it is entered
  (\<open>None\<close>: the call does not return), and \<open>wait_until\<close> in \<open>_Do_run_one_until\<close>
  returns \<open>cv_status::timeout\<close>. \<open>_Do_run_one_until\<close> reads the clock anew at each
  call and compares the signed tick counts.
\<close>

definition Do_run_one ::
  "('f \<Rightarrow> 'f world \<Rightarrow> (unit, 'f) outcome) \<Rightarrow> 'f world \<Rightarrow> (size_t, 'f) outcome option" where
  "Do_run_one call w =
     (if op_queue_Empty (M_queue w) \<and> \<not> M_stopped w then None
      else if M_stopped w then Some (Inr 0, w)
      else complete_front call w)"

definition Do_run_one_until ::
  "('f \<Rightarrow> 'f world \<Rightarrow> (unit, 'f) outcome) \<Rightarrow> ticks \<Rightarrow> 'f world \<Rightarrow> (size_t, 'f) outcome option" where
  "Do_run_one_until call abs_time w =
     (let (t, w0) = now w
      in if sint t \<ge> sint abs_time then Some (Inr 0, w0)
         else if op_queue_Empty (M_queue w0) \<and> \<not> M_stopped w0
         then Some (Inr 0, emit [Wait_until abs_time] w0)
         else if M_stopped w0 then Some (Inr 0, w0)
         else complete_front call w0)"

definition Do_poll_one ::
  "('f \<Rightarrow> 'f world \<Rightarrow> (unit, 'f) outcome) \<Rightarrow> 'f world \<Rightarrow> (size_t, 'f) outcome option" where
  "Do_poll_one call w =
     (if op_queue_Empty (M_queue w) \<or> M_stopped w then Some (Inr 0, w)
      else complete_front call w)"

subsection \<open>The entry points\<close>

text \<open>
  The loop of \<open>_Run\<close>, \<open>_Run_until\<close> and \<open>_Poll\<close>:
  \<open>for (; step(__ctx._M_lock); __ctx._Lock()) if (__n != max) ++__n;\<close>
  with the primitive as \<open>step\<close>. It need not end.
\<close>

partial_function (option) run_loop ::
  "('f world \<Rightarrow> (size_t, 'f) outcome option) \<Rightarrow> size_t \<Rightarrow> 'f world \<Rightarrow> (size_t, 'f) outcome option" where
  "run_loop step n w =
     (case step w of
        None \<Rightarrow> None
      | Some (Inl x, w') \<Rightarrow> Some (Inl x, w')
      | Some (Inr k, w') \<Rightarrow>
          if k = 0 then Some (Inr n, w')
          else run_loop step (if n \<noteq> - 1 then n + 1 else n) (Context_Lock w'))"

declare run_loop.simps [code]

text \<open>
  The scope of the local \<open>_Context __ctx(this)\<close>: constructed, the body runs, and the
  destructor runs however the body is left.
\<close>

definition in_Context ::
  "('f world \<Rightarrow> (size_t, 'f) outcome option) \<Rightarrow> 'f world \<Rightarrow> (size_t, 'f) outcome option" where
  "in_Context body w =
     (case body (Context_ctor w) of
        None \<Rightarrow> None
      | Some (r, w') \<Rightarrow> Some (r, Context_dtor w'))"

definition Run ::
  "('f \<Rightarrow> 'f world \<Rightarrow> (unit, 'f) outcome) \<Rightarrow> 'f world \<Rightarrow> (size_t, 'f) outcome option" where
  "Run call w =
     (if M_outstanding_work w = 0 then Some (Inr 0, Stop w)
      else in_Context (run_loop (Do_run_one call) 0) w)"

definition Run_one ::
  "('f \<Rightarrow> 'f world \<Rightarrow> (unit, 'f) outcome) \<Rightarrow> 'f world \<Rightarrow> (size_t, 'f) outcome option" where
  "Run_one call w =
     (if M_outstanding_work w = 0 then Some (Inr 0, Stop w)
      else in_Context (Do_run_one call) w)"

definition Run_until ::
  "('f \<Rightarrow> 'f world \<Rightarrow> (unit, 'f) outcome) \<Rightarrow> ticks \<Rightarrow> 'f world \<Rightarrow> (size_t, 'f) outcome option" where
  "Run_until call abs_time w =
     (if M_outstanding_work w = 0 then Some (Inr 0, Stop w)
      else in_Context (run_loop (Do_run_one_until call abs_time) 0) w)"

text \<open>
  \<open>_Run_for\<close>: \<open>steady_clock::now() + __rel_time\<close> is the 64-bit sum of the reading and
  the duration; \<open>_Run_until\<close> is called with it once the clock has been read.
\<close>

definition Run_for ::
  "('f \<Rightarrow> 'f world \<Rightarrow> (unit, 'f) outcome) \<Rightarrow> ticks \<Rightarrow> 'f world \<Rightarrow> (size_t, 'f) outcome option" where
  "Run_for call rel_time w =
     (let (t, w0) = now w
      in Run_until call (t + rel_time) w0)"

definition Poll ::
  "('f \<Rightarrow> 'f world \<Rightarrow> (unit, 'f) outcome) \<Rightarrow> 'f world \<Rightarrow> (size_t, 'f) outcome option" where
  "Poll call w =
     (if M_outstanding_work w = 0 then Some (Inr 0, Stop w)
      else in_Context (run_loop (Do_poll_one call) 0) w)"

definition Poll_one ::
  "('f \<Rightarrow> 'f world \<Rightarrow> (unit, 'f) outcome) \<Rightarrow> 'f world \<Rightarrow> (size_t, 'f) outcome option" where
  "Poll_one call w =
     (if M_outstanding_work w = 0 then Some (Inr 0, Stop w)
      else in_Context (Do_poll_one call) w)"

subsection \<open>Callables\<close>

text \<open>
  The scheduler is a template over the callable type. For concrete runs, a callable
  is a finite program over the scheduler's public interface: return, throw, post a
  callable, dispatch a callable, branch on \<open>stopped()\<close>, stop, reset; each of the last
  five followed by the rest of the program. \<open>invoke\<close> is what calling it does.
\<close>

datatype func =
    Return
  | Throw exn
  | Post_then func func
  | Dispatch_then func func
  | If_stopped func func
  | Stop_then func
  | Reset_then func

lemma Dispatch_cong [fundef_cong]:
  "f = f' \<Longrightarrow> w = w' \<Longrightarrow> call f' w' = call' f' w' \<Longrightarrow> Dispatch call f w = Dispatch call' f' w'"
  by (simp add: Dispatch_def)

fun invoke :: "func \<Rightarrow> func world \<Rightarrow> (unit, func) outcome" where
  "invoke Return w = (Inr (), w)"
| "invoke (Throw x) w = (Inl x, w)"
| "invoke (Post_then g rest) w = invoke rest (Post g w)"
| "invoke (Dispatch_then g rest) w =
     (case Dispatch invoke g w of
        (Inl x, w') \<Rightarrow> (Inl x, w')
      | (Inr _, w') \<Rightarrow> invoke rest w')"
| "invoke (If_stopped a b) w =
     (case Stopped w of (s, w') \<Rightarrow> if s then invoke a w' else invoke b w')"
| "invoke (Stop_then rest) w = invoke rest (Stop w)"
| "invoke (Reset_then rest) w = invoke rest (Reset w)"

subsection \<open>The specification's reading of \<open>_Complete\<close>\<close>

text \<open>
  Section 4.5 of the specification orders the steps of completing an operation as:
  destroy \<open>this\<close>, which calls \<open>work_finished\<close>; then invoke the moved callable.
\<close>

definition Complete_finishing_first ::
  "('f \<Rightarrow> 'f world \<Rightarrow> (unit, 'f) outcome) \<Rightarrow> 'f op_ptr \<Rightarrow> 'f world \<Rightarrow> (unit, 'f) outcome" where
  "Complete_finishing_first call op w =
     call (M_func (snd op)) (deallocate (fst op) (Work_finished w))"

subsection \<open>Accounting for operations\<close>

text \<open>
  The private queue of the most recent context on the call stack, and the line of a
  world: the addresses of the operations handed to \<open>_Complete\<close> so far, then those in
  the global queue, then those in that private queue. A world is framed when the most
  recent context belongs to this scheduler and its private queue is empty unless
  \<open>_M_one_thread\<close>, as it is inside a run. A step from \<open>w\<close> to \<open>w'\<close> conserves the
  operations when the line of \<open>w'\<close> is the line of \<open>w\<close> followed by the blocks
  allocated in between, in order of allocation, the operations handed to \<open>_Complete\<close>
  are still so, \<open>w'\<close> is framed, and the contexts below the most recent one are
  untouched. A callable semantics is well scoped when
  every call from a framed world is such a step.
\<close>

definition top_private :: "'f world \<Rightarrow> 'f op_ptr list" where
  "top_private w = (case call_stack w of [] \<Rightarrow> [] | e # _ \<Rightarrow> M_private_queue (snd e))"

definition lineup :: "'f world \<Rightarrow> nat list" where
  "lineup w = upcalls w @ map fst (M_queue w) @ map fst (top_private w)"

definition framed :: "'f world \<Rightarrow> bool" where
  "framed w =
     (case call_stack w of
        [] \<Rightarrow> False
      | e # _ \<Rightarrow> fst e = this_ptr w \<and> (M_one_thread w \<or> M_private_queue (snd e) = []))"

definition conserves :: "'f world \<Rightarrow> 'f world \<Rightarrow> bool" where
  "conserves w w' =
     (this_ptr w' = this_ptr w \<and> framed w'
      \<and> tl (call_stack w') = tl (call_stack w)
      \<and> next_block w \<le> next_block w'
      \<and> lineup w' = lineup w @ [next_block w..<next_block w']
      \<and> prefix (upcalls w) (upcalls w'))"

definition well_scoped :: "('f \<Rightarrow> 'f world \<Rightarrow> (unit, 'f) outcome) \<Rightarrow> bool" where
  "well_scoped call = (\<forall>f w. framed w \<longrightarrow> conserves w (snd (call f w)))"

subsection \<open>Concrete inputs\<close>

text \<open>
  The pointer \<open>_Post\<close> pushes; a callable that throws when it finds the scheduler
  stopped; a scheduler holding one unit of work; a callable that posts twice and then
  throws, posted on a single-threaded scheduler, and the world its run leaves.
\<close>

definition new_op :: "'f \<Rightarrow> 'f world \<Rightarrow> 'f op_ptr" where
  "new_op f w = (next_block w, \<lparr>M_func = f, M_owner = Some (this_ptr w)\<rparr>)"

definition probe :: func where
  "probe = If_stopped (Throw (User_exception ''stopped'')) Return"

definition last_work :: "func world" where
  "last_work = Work_started (scheduler_ctor 7 4)"

definition thrower :: func where
  "thrower = Post_then Return (Post_then Return (Throw (User_exception ''x'')))"

definition thrower_world :: "func world" where
  "thrower_world = Post thrower (scheduler_ctor 7 1)"

definition thrower_exit :: "func world" where
  "thrower_exit =
     \<lparr>this_ptr = 7,
      M_queue = [(1, \<lparr>M_func = Return, M_owner = Some 7\<rparr>),
                 (2, \<lparr>M_func = Return, M_owner = Some 7\<rparr>)],
      M_outstanding_work = 2, M_stopped = False, M_one_thread = True,
      call_stack = [], clock = 0, clock_later = [], next_block = 3, freed = [0],
      trace = [Mutex_lock, Notify_one, Mutex_unlock, Mutex_lock, Mutex_unlock,
               Mutex_lock, Mutex_unlock],
      upcalls = [0]\<rparr>"

text \<open>
  The world in which the exception of that callable leaves the loop of \<open>_Run\<close>, before
  the destructor of the context; and the world a second \<open>_Run\<close>, from the world the
  first one left, returns in.
\<close>

definition thrower_unwinding :: "func world" where
  "thrower_unwinding =
     \<lparr>this_ptr = 7, M_queue = [], M_outstanding_work = 2, M_stopped = False,
      M_one_thread = True,
      call_stack =
        [(7, \<lparr>M_private_queue = [(1, \<lparr>M_func = Return, M_owner = Some 7\<rparr>),
                                  (2, \<lparr>M_func = Return, M_owner = Some 7\<rparr>)],
               M_lock_owns = False\<rparr>)],
      clock = 0, clock_later = [], next_block = 3, freed = [0],
      trace = [Mutex_lock, Notify_one, Mutex_unlock, Mutex_lock, Mutex_unlock],
      upcalls = [0]\<rparr>"

definition thrower_drained :: "func world" where
  "thrower_drained =
     \<lparr>this_ptr = 7, M_queue = [], M_outstanding_work = 0, M_stopped = True,
      M_one_thread = True, call_stack = [], clock = 0, clock_later = [],
      next_block = 3, freed = [0, 1, 2],
      trace = [Mutex_lock, Notify_one, Mutex_unlock, Mutex_lock, Mutex_unlock,
               Mutex_lock, Mutex_unlock, Mutex_lock, Mutex_unlock, Mutex_lock,
               Mutex_unlock, Mutex_lock, Notify_all, Mutex_unlock, Mutex_lock,
               Mutex_unlock],
      upcalls = [0, 1, 2]\<rparr>"

text \<open>
  A scheduler with one operation queued, the clock reading 1000 ticks and then 1005,
  1010 and 1015; and the longest duration, \<open>nanoseconds::max()\<close>.
\<close>

definition queued_world :: "func world" where
  "queued_world = (Post Return (scheduler_ctor 7 4))\<lparr>clock := 1000, clock_later := [1005, 1010, 1015]\<rparr>"

definition duration_max :: ticks where
  "duration_max = 9223372036854775807"

section \<open>Properties of the future token\<close>

lemma value_pack_Apply_Empty:
  "value_pack_Apply Empty args = Inr (Has_value (packed_value args))"
  by (cases "(Empty :: 'a packed shared_state, args)" rule: value_pack_Apply.cases)
     (simp_all add: set_value_def packed_value_def)

lemma value_pack_has_type:
  "list_all2 (\<lambda>v t. has v (decay t)) args ts \<Longrightarrow>
   packed_has_type has (packed_value args) (value_pack_Type decay ts)"
  by (cases "(decay, ts)" rule: value_pack_Type.cases)
     (auto simp: packed_value_def list_all2_Cons2 list_all2_map2)

text \<open>
  C6: a handler of the \<open>error_code\<close> specialisation, freshly constructed and called with
  a non-zero code, leaves a promise holding \<open>system_error\<close> of that code, which the
  future rethrows; called with a zero code it leaves the value packed from the
  remaining arguments, which the future returns.
\<close>

theorem promise_handler_error_code_fulfils:
  "(ec_value e \<noteq> 0 \<longrightarrow>
      promise_handler_error_code_call promise_handler_ctor e args =
        Inr \<lparr>M_promise = Has_exception (System_error e)\<rparr>
      \<and> future_get (Has_exception (System_error e) :: 'v packed shared_state) =
          Some (Inl (System_error e)))
   \<and> (ec_value e = 0 \<longrightarrow>
      promise_handler_error_code_call promise_handler_ctor e (args :: 'v list) =
        Inr \<lparr>M_promise = Has_value (packed_value args)\<rparr>
      \<and> future_get (Has_value (packed_value args)) = Some (Inr (packed_value args)))"
  by (simp add: promise_handler_error_code_call_def promise_handler_ctor_def error_code_bool_def
      set_exception_def value_pack_Apply_Empty future_get_def)

theorem promise_handler_error_code_fulfils_witness:
  "ec_value \<lparr>ec_value = 42, ec_category = 0\<rparr> \<noteq> 0
   \<and> promise_handler_error_code_call promise_handler_ctor \<lparr>ec_value = 42, ec_category = 0\<rparr> [True] =
        Inr \<lparr>M_promise = Has_exception (System_error \<lparr>ec_value = 42, ec_category = 0\<rparr>)\<rparr>
   \<and> ec_value \<lparr>ec_value = 0, ec_category = 0\<rparr> = 0
   \<and> promise_handler_error_code_call promise_handler_ctor \<lparr>ec_value = 0, ec_category = 0\<rparr>
        [True, False] =
        Inr \<lparr>M_promise = Has_value (Tuple [True, False])\<rparr>"
  using promise_handler_error_code_fulfils [of "\<lparr>ec_value = 42, ec_category = 0\<rparr>" "[True]"]
    promise_handler_error_code_fulfils [of "\<lparr>ec_value = 0, ec_category = 0\<rparr>" "[True, False]"]
  by (simp add: packed_value_def)

text \<open>
  C9: for the primary \<open>__promise_handler\<close> template the promise's value type is \<open>void\<close>
  for no argument, the decayed argument type for one argument, and the tuple of the
  decayed argument types, in order, for two or more; calling a fresh handler stores the
  arguments packed the same way, the future returns them, and the stored value has the
  promise's value type whenever each argument has its decayed parameter type.
\<close>

theorem promise_handler_packs_by_arity:
  "value_pack_Type decay [] = Void
   \<and> value_pack_Type decay [t] = Plain (decay t)
   \<and> value_pack_Type decay (t1 # t2 # ts) = Std_tuple (map decay (t1 # t2 # ts))
   \<and> promise_handler_call promise_handler_ctor ([] :: 'v list) =
        Inr \<lparr>M_promise = Has_value Unit\<rparr>
   \<and> promise_handler_call promise_handler_ctor [a :: 'v] =
        Inr \<lparr>M_promise = Has_value (Single a)\<rparr>
   \<and> promise_handler_call promise_handler_ctor (a1 # a2 # as :: 'v list) =
        Inr \<lparr>M_promise = Has_value (Tuple (a1 # a2 # as))\<rparr>
   \<and> future_get (Has_value (v :: 'v packed)) = Some (Inr v)
   \<and> (list_all2 (\<lambda>v t. has v (decay t)) (args :: 'v list) targs \<longrightarrow>
        (\<exists>v. promise_handler_call promise_handler_ctor args = Inr \<lparr>M_promise = Has_value v\<rparr>
           \<and> packed_has_type has v (value_pack_Type decay targs)))"
  by (simp add: promise_handler_call_def promise_handler_ctor_def set_value_def future_get_def
      value_pack_Apply_Empty value_pack_has_type)

theorem promise_handler_packs_by_arity_witness:
  "list_all2 (\<lambda>v t. (\<lambda>(v :: int) t. t = ''int'') v ((\<lambda>t. if t = ''const int&'' then ''int'' else t) t))
     [1, 2] [''const int&'', ''int'']
   \<and> promise_handler_call promise_handler_ctor [1, 2 :: int] =
        Inr \<lparr>M_promise = Has_value (Tuple [1, 2])\<rparr>
   \<and> packed_has_type (\<lambda>(v :: int) t. t = ''int'') (Tuple [1, 2])
        (value_pack_Type (\<lambda>t. if t = ''const int&'' then ''int'' else t) [''const int&'', ''int''])"
  using promise_handler_packs_by_arity
    [where decay = "\<lambda>t. if t = ''const int&'' then ''int'' else t"
       and has = "\<lambda>(v :: int) t. t = ''int''"
       and args = "[1, 2]" and targs = "[''const int&'', ''int'']"]
  by (auto simp: promise_handler_call_def promise_handler_ctor_def set_value_def)

lemma packaged_handler_call_throws:
  "pk_func h args = Inl x \<Longrightarrow> pk_promise h = Empty \<Longrightarrow>
   packaged_handler_call h args = Inr (h\<lparr>pk_promise := Has_exception x\<rparr>)"
  by (simp add: packaged_handler_call_def set_exception_def)

lemma packaged_handler_call_returns:
  "pk_func h args = Inr r \<Longrightarrow> packaged_handler_call h args = Inr h"
  by (simp add: packaged_handler_call_def)

text \<open>
  C2 (the code departs from it): \<open>__packaged_handler::operator()\<close> passes its arguments
  to the callable and stores a thrown exception in the promise, but when the callable
  returns, nothing is stored. With a callable returning the sum of its arguments,
  called with 1 and 2, the handler returns and the future has neither 3 nor a failure.
\<close>

theorem packaged_handler_drops_result:
  "(case packaged_handler_call
           (packaged_handler_ctor \<lparr>tok_func = (\<lambda>args. Inr (sum_list args)), tok_allocator = ()\<rparr>)
           [1, 2 :: int] of
      Inl x \<Rightarrow> Some (Inl x)
    | Inr h \<Rightarrow> future_get (pk_promise h)) = None"
  by (simp add: packaged_handler_call_def packaged_handler_ctor_def future_get_def)

section \<open>Properties of the scheduler\<close>

subsection \<open>Entry points\<close>

lemma now_fields:
  "fst (now w) = clock w"
  "call_stack (snd (now w)) = call_stack w" "upcalls (snd (now w)) = upcalls w"
  "M_queue (snd (now w)) = M_queue w" "next_block (snd (now w)) = next_block w"
  "this_ptr (snd (now w)) = this_ptr w" "M_outstanding_work (snd (now w)) = M_outstanding_work w"
  "freed (snd (now w)) = freed w" "trace (snd (now w)) = trace w"
  "M_stopped (snd (now w)) = M_stopped w"
  by (simp_all add: now_def split: list.splits)

lemma now_only_clock:
  "snd (now w) = w\<lparr>clock := clock (snd (now w)), clock_later := clock_later (snd (now w))\<rparr>"
  by (simp add: now_def split: list.splits)

lemma Run_for_eq: "Run_for call rel_time w = Run_until call (clock w + rel_time) (snd (now w))"
  by (simp add: Run_for_def now_def split: list.splits)

text \<open>
  C7: when \<open>_M_outstanding_work\<close> is 0 at entry, each of run, run\_one, run\_for,
  run\_until, poll and poll\_one returns 0 in the world \<open>_Stop\<close> leaves: the stopped flag
  set and the mutex locked, the condition variable broadcast, the mutex unlocked;
  nothing else changes, so no operation is dequeued and no callable runs. (Before
  that, run\_for has read the clock, which has moved on and is all that differs.)
\<close>

theorem entry_points_short_circuit:
  "M_outstanding_work w = 0 \<Longrightarrow>
     Run call w = Some (Inr 0, Stop w)
   \<and> Run_one call w = Some (Inr 0, Stop w)
   \<and> Run_for call rel_time w = Some (Inr 0, Stop (snd (now w)))
   \<and> Run_until call abs_time w = Some (Inr 0, Stop w)
   \<and> Poll call w = Some (Inr 0, Stop w)
   \<and> Poll_one call w = Some (Inr 0, Stop w)
   \<and> Stop w = w\<lparr>M_stopped := True, trace := trace w @ [Mutex_lock, Notify_all, Mutex_unlock]\<rparr>
   \<and> M_queue (Stop w) = M_queue w \<and> freed (Stop w) = freed w \<and> upcalls (Stop w) = upcalls w
   \<and> Stop (snd (now w)) =
        w\<lparr>M_stopped := True, trace := trace w @ [Mutex_lock, Notify_all, Mutex_unlock],
          clock := clock (snd (now w)), clock_later := clock_later (snd (now w))\<rparr>"
proof -
  assume z: "M_outstanding_work w = 0"
  have "Stop (snd (now w)) =
        w\<lparr>M_stopped := True, trace := trace w @ [Mutex_lock, Notify_all, Mutex_unlock],
          clock := clock (snd (now w)), clock_later := clock_later (snd (now w))\<rparr>"
    by (simp add: Stop_def emit_def now_def split: list.splits)
  then show ?thesis
    using z
    by (simp add: Run_def Run_one_def Run_for_eq Run_until_def Poll_def Poll_one_def
        Stop_def emit_def now_fields)
qed

theorem entry_points_short_circuit_witness:
  "M_outstanding_work (scheduler_ctor 7 4 :: func world) = 0
   \<and> Run invoke (scheduler_ctor 7 4) = Some (Inr 0, Stop (scheduler_ctor 7 4))
   \<and> Poll_one invoke (scheduler_ctor 7 4) = Some (Inr 0, Stop (scheduler_ctor 7 4))
   \<and> Run_for invoke 50 (scheduler_ctor 7 4) = Some (Inr 0, Stop (scheduler_ctor 7 4))
   \<and> M_stopped (Stop (scheduler_ctor 7 4 :: func world))
   \<and> trace (Stop (scheduler_ctor 7 4 :: func world)) = [Mutex_lock, Notify_all, Mutex_unlock]"
  using entry_points_short_circuit [of "scheduler_ctor 7 4 :: func world" invoke 50 0]
  by (simp add: scheduler_ctor_def now_def)

text \<open>
  C10: \<open>_Run_for\<close> with a duration is \<open>_Run_until\<close> with the sum of the steady clock's
  reading at the call and that duration, called once the clock has been read, and
  returns what that call returns. The reading is the clock's, reading it leaves the
  world as it is but for the clock moving on to its next reading, and the sum is that
  of two 64-bit signed tick counts, wrapping around.
\<close>

theorem Run_for_is_Run_until:
  "Run_for call rel_time w = Run_until call (fst (now w) + rel_time) (snd (now w))
   \<and> fst (now w) = clock w
   \<and> snd (now w) = (case clock_later w of [] \<Rightarrow> w | t # ts \<Rightarrow> w\<lparr>clock := t, clock_later := ts\<rparr>)
   \<and> sint (fst (now w) + rel_time) = signed_take_bit 63 (sint (clock w) + sint rel_time)"
  by (simp add: Run_for_eq now_def sint_word_ariths)

theorem Run_for_is_Run_until_witness:
  "Run_for invoke duration_max queued_world =
     Run_until invoke (1000 + duration_max) (snd (now queued_world))
   \<and> sint (1000 + duration_max :: ticks) = - 9223372036854774809
   \<and> map_option (\<lambda>(r, w). (r, map fst (M_queue w), upcalls w, clock w))
        (Run_for invoke duration_max queued_world) = Some (Inr 0, [0], [], 1010)
   \<and> Run_for invoke 1 queued_world = Run_until invoke 1001 (snd (now queued_world))
   \<and> map_option (\<lambda>(r, w). (r, map fst (M_queue w), upcalls w, clock w))
        (Run_for invoke 1 queued_world) = Some (Inr 0, [0], [], 1010)
   \<and> Run_for invoke 50 queued_world = Run_until invoke 1050 (snd (now queued_world))
   \<and> map_option (\<lambda>(r, w). (r, map fst (M_queue w), upcalls w, clock w))
        (Run_for invoke 50 queued_world) = Some (Inr 1, [], [0], 1015)"
proof -
  have c: "fst (now queued_world) = 1000"
    by (simp add: now_def queued_world_def)
  have a: "sint (1000 + duration_max :: ticks) = - 9223372036854774809"
    by (simp add: duration_max_def)
  have r1: "map_option (\<lambda>(r, w). (r, map fst (M_queue w), upcalls w, clock w))
        (Run_for invoke duration_max queued_world) = Some (Inr 0, [0], [], 1010)"
    unfolding queued_world_def duration_max_def by code_simp
  have r2: "map_option (\<lambda>(r, w). (r, map fst (M_queue w), upcalls w, clock w))
        (Run_for invoke 1 queued_world) = Some (Inr 0, [0], [], 1010)"
    unfolding queued_world_def by code_simp
  have r3: "map_option (\<lambda>(r, w). (r, map fst (M_queue w), upcalls w, clock w))
        (Run_for invoke 50 queued_world) = Some (Inr 1, [], [0], 1015)"
    unfolding queued_world_def by code_simp
  show ?thesis
    using Run_for_is_Run_until [of invoke duration_max queued_world]
      Run_for_is_Run_until [of invoke 1 queued_world]
      Run_for_is_Run_until [of invoke 50 queued_world] c a r1 r2 r3
    by simp
qed

subsection \<open>Posting and dispatching\<close>

lemma Contains_write:
  "Contains k (call_stack_write k g cs) = map_option g (Contains k cs)"
  by (induction cs) auto

text \<open>
  C8: when the thread's call stack holds a context of this scheduler, \<open>_Dispatch\<close>
  calls the callable in place, whatever \<open>_M_one_thread\<close> is; when it holds none,
  \<open>_Dispatch\<close> is \<open>_Post\<close>.
\<close>

theorem Dispatch_inline_or_post:
  "(Contains (this_ptr w) (call_stack w) = Some c \<longrightarrow>
      Dispatch call f (w\<lparr>M_one_thread := b\<rparr>) = call f (w\<lparr>M_one_thread := b\<rparr>))
   \<and> (Contains (this_ptr w) (call_stack w) = None \<longrightarrow>
      Dispatch call f w = (Inr (), Post f w))"
  by (simp add: Dispatch_def)

theorem Dispatch_inline_or_post_witness:
  "Contains (this_ptr (Context_ctor last_work)) (call_stack (Context_ctor last_work)) =
     Some \<lparr>M_private_queue = [], M_lock_owns = True\<rparr>
   \<and> \<not> M_one_thread (Context_ctor last_work)
   \<and> Dispatch invoke (Stop_then Return) (Context_ctor last_work) =
       (Inr (), Stop (Context_ctor last_work))
   \<and> Dispatch invoke (Stop_then Return) ((Context_ctor last_work)\<lparr>M_one_thread := True\<rparr>) =
       (Inr (), Stop ((Context_ctor last_work)\<lparr>M_one_thread := True\<rparr>))
   \<and> Contains (this_ptr last_work) (call_stack last_work) = None
   \<and> Dispatch invoke (Stop_then Return) last_work = (Inr (), Post (Stop_then Return) last_work)"
  using Dispatch_inline_or_post
      [of "Context_ctor last_work" "\<lparr>M_private_queue = [], M_lock_owns = True\<rparr>"
          invoke "Stop_then Return" False]
    Dispatch_inline_or_post
      [of "Context_ctor last_work" "\<lparr>M_private_queue = [], M_lock_owns = True\<rparr>"
          invoke "Stop_then Return" True]
    Dispatch_inline_or_post [of last_work _ invoke "Stop_then Return"]
  by (simp add: Context_ctor_def last_work_def scheduler_ctor_def Work_started_def emit_def)

text \<open>
  C4: with \<open>_M_one_thread\<close> set and a context of this scheduler on the call stack,
  \<open>_Post\<close> appends the new operation to that context's private queue and makes no call
  on the mutex or the condition variable; otherwise, the allocator having returned an
  address that no queued operation has, it locks the mutex, pushes the operation on the
  global queue, calls \<open>notify_one\<close> exactly when the queue was empty, and unlocks.
\<close>

theorem Post_private_or_global:
  "(M_one_thread w \<and> Contains (this_ptr w) (call_stack w) = Some c \<longrightarrow>
      Post f w = w\<lparr>M_outstanding_work := M_outstanding_work w + 1,
                   next_block := Suc (next_block w),
                   call_stack := call_stack_write (this_ptr w)
                      (\<lambda>c. c\<lparr>M_private_queue := M_private_queue c @ [new_op f w]\<rparr>) (call_stack w)\<rparr>
      \<and> Contains (this_ptr w) (call_stack (Post f w)) =
          Some (c\<lparr>M_private_queue := M_private_queue c @ [new_op f w]\<rparr>)
      \<and> M_queue (Post f w) = M_queue w
      \<and> trace (Post f w) = trace w)
   \<and> (\<not> (M_one_thread w \<and> Contains (this_ptr w) (call_stack w) \<noteq> None)
        \<and> next_block w \<notin> fst ` set (M_queue w) \<longrightarrow>
      Post f w = w\<lparr>M_outstanding_work := M_outstanding_work w + 1,
                   next_block := Suc (next_block w),
                   M_queue := M_queue w @ [new_op f w],
                   trace := trace w @ [Mutex_lock] @ (if M_queue w = [] then [Notify_one] else [])
                              @ [Mutex_unlock]\<rparr>)"
proof (intro conjI impI)
  assume a: "M_one_thread w \<and> Contains (this_ptr w) (call_stack w) = Some c"
  then show "Post f w = w\<lparr>M_outstanding_work := M_outstanding_work w + 1,
                   next_block := Suc (next_block w),
                   call_stack := call_stack_write (this_ptr w)
                      (\<lambda>c. c\<lparr>M_private_queue := M_private_queue c @ [new_op f w]\<rparr>) (call_stack w)\<rparr>"
    by (simp add: Post_def allocate_def scheduler_op_ctor_def Work_started_def new_op_def
        op_queue_Push_def)
  from a show "Contains (this_ptr w) (call_stack (Post f w)) =
          Some (c\<lparr>M_private_queue := M_private_queue c @ [new_op f w]\<rparr>)"
    by (simp add: Post_def allocate_def scheduler_op_ctor_def Work_started_def new_op_def
        op_queue_Push_def Contains_write)
  from a show "M_queue (Post f w) = M_queue w"
    by (simp add: Post_def allocate_def scheduler_op_ctor_def Work_started_def)
  from a show "trace (Post f w) = trace w"
    by (simp add: Post_def allocate_def scheduler_op_ctor_def Work_started_def)
next
  assume b: "\<not> (M_one_thread w \<and> Contains (this_ptr w) (call_stack w) \<noteq> None)
        \<and> next_block w \<notin> fst ` set (M_queue w)"
  have front: "(map_option fst (op_queue_Front (M_queue w @ [new_op f w])) = Some (next_block w))
                 = (M_queue w = [])"
    using b by (cases "M_queue w") (auto simp: op_queue_Front_def new_op_def)
  show "Post f w = w\<lparr>M_outstanding_work := M_outstanding_work w + 1,
                   next_block := Suc (next_block w),
                   M_queue := M_queue w @ [new_op f w],
                   trace := trace w @ [Mutex_lock] @ (if M_queue w = [] then [Notify_one] else [])
                              @ [Mutex_unlock]\<rparr>"
    using front b
    by (cases "M_one_thread w"; cases "Contains (this_ptr w) (call_stack w)")
       (simp_all add: Post_def allocate_def scheduler_op_ctor_def Work_started_def Let_def
        op_queue_Push_def emit_def new_op_def)
qed

theorem Post_private_or_global_witness:
  "M_one_thread (Context_ctor (scheduler_ctor 7 1 :: func world))
   \<and> Contains (this_ptr (Context_ctor (scheduler_ctor 7 1 :: func world)))
         (call_stack (Context_ctor (scheduler_ctor 7 1 :: func world))) =
       Some \<lparr>M_private_queue = [], M_lock_owns = True\<rparr>
   \<and> Contains 7 (call_stack (Post Return (Context_ctor (scheduler_ctor 7 1)))) =
       Some \<lparr>M_private_queue = [(0, \<lparr>M_func = Return, M_owner = Some 7\<rparr>)], M_lock_owns = True\<rparr>
   \<and> M_queue (Post Return (Context_ctor (scheduler_ctor 7 1))) = []
   \<and> trace (Post Return (Context_ctor (scheduler_ctor 7 1))) = [Mutex_lock]
   \<and> \<not> (M_one_thread thrower_world
          \<and> Contains (this_ptr thrower_world) (call_stack thrower_world) \<noteq> None)
   \<and> next_block thrower_world \<notin> fst ` set (M_queue thrower_world)
   \<and> M_queue (Post Return thrower_world) =
       [(0, \<lparr>M_func = thrower, M_owner = Some 7\<rparr>), (1, \<lparr>M_func = Return, M_owner = Some 7\<rparr>)]
   \<and> trace thrower_world = [Mutex_lock, Notify_one, Mutex_unlock]
   \<and> trace (Post Return thrower_world) =
       [Mutex_lock, Notify_one, Mutex_unlock, Mutex_lock, Mutex_unlock]"
proof -
  have tw: "thrower_world =
      \<lparr>this_ptr = 7, M_queue = [(0, \<lparr>M_func = thrower, M_owner = Some 7\<rparr>)],
       M_outstanding_work = 1, M_stopped = False, M_one_thread = True, call_stack = [],
       clock = 0, clock_later = [], next_block = 1, freed = [],
       trace = [Mutex_lock, Notify_one, Mutex_unlock], upcalls = []\<rparr>"
    by (simp add: thrower_world_def Post_def scheduler_ctor_def allocate_def scheduler_op_ctor_def
        Work_started_def Let_def emit_def op_queue_Push_def op_queue_Front_def)
  show ?thesis
    using Post_private_or_global
        [of "Context_ctor (scheduler_ctor 7 1)" "\<lparr>M_private_queue = [], M_lock_owns = True\<rparr>" Return]
      Post_private_or_global [of thrower_world _ Return]
    by (simp add: tw new_op_def) (simp add: Context_ctor_def scheduler_ctor_def emit_def)
qed

subsection \<open>Completing an operation\<close>

lemma outstanding_Work_finished:
  "M_outstanding_work (Work_finished w) = M_outstanding_work w - 1"
  by (simp add: Work_finished_def Stop_def emit_def Let_def)

lemma Complete_eq:
  "Complete call op w =
     (fst (call (M_func (snd op)) (deallocate (fst op) w)),
      scheduler_op_dtor (snd op) (snd (call (M_func (snd op)) (deallocate (fst op) w))))"
  by (cases "call (M_func (snd op)) (deallocate (fst op) w)")
     (simp add: Complete_def scheduler_op_move_def scheduler_op_dtor_def)

lemma Complete_owned:
  "Complete call (p, \<lparr>M_func = f, M_owner = Some k\<rparr>) w =
     (fst (call f (deallocate p w)), Work_finished (snd (call f (deallocate p w))))"
  by (simp add: Complete_eq scheduler_op_dtor_def)

text \<open>
  C3: completing an operation that owns its unit of work leaves the counter one below
  what the callable left, whether the callable returned or threw: \<open>_Work_finished\<close>
  runs once, from the destructor of the temporary. Destroying the moved-from
  operation changes nothing, freeing the block does not touch the counter, and
  \<open>_Destroy\<close> without running takes the counter down by one.
\<close>

theorem work_finished_exactly_once:
  "(call f (deallocate p w) = (r, w2) \<longrightarrow>
      Complete call (p, \<lparr>M_func = f, M_owner = Some k\<rparr>) w = (r, Work_finished w2)
      \<and> M_outstanding_work (snd (Complete call (p, \<lparr>M_func = f, M_owner = Some k\<rparr>) w)) =
          M_outstanding_work w2 - 1)
   \<and> M_outstanding_work (deallocate p w) = M_outstanding_work w
   \<and> scheduler_op_dtor (snd (scheduler_op_move s)) w = w
   \<and> Destroy (p, \<lparr>M_func = f, M_owner = Some k\<rparr>) w = deallocate p (Work_finished w)
   \<and> M_outstanding_work (Destroy (p, \<lparr>M_func = f, M_owner = Some k\<rparr>) w) =
        M_outstanding_work w - 1"
  by (simp add: Complete_owned outstanding_Work_finished scheduler_op_move_def
      scheduler_op_dtor_def Destroy_def deallocate_def)

theorem work_finished_exactly_once_witness:
  "invoke (Throw (User_exception ''x'')) (deallocate 0 last_work) =
     (Inl (User_exception ''x''), deallocate 0 last_work)
   \<and> Complete invoke (0, \<lparr>M_func = Throw (User_exception ''x''), M_owner = Some 7\<rparr>) last_work =
       (Inl (User_exception ''x''), Work_finished (deallocate 0 last_work))
   \<and> M_outstanding_work last_work = 1
   \<and> M_outstanding_work
       (snd (Complete invoke (0, \<lparr>M_func = Throw (User_exception ''x''), M_owner = Some 7\<rparr>)
              last_work)) = 0"
proof -
  have h: "invoke (Throw (User_exception ''x'')) (deallocate 0 last_work) =
      (Inl (User_exception ''x''), deallocate 0 last_work)"
    by simp
  have ow: "M_outstanding_work last_work = 1"
    by (simp add: last_work_def Work_started_def scheduler_ctor_def)
  have "Complete invoke (0, \<lparr>M_func = Throw (User_exception ''x''), M_owner = Some 7\<rparr>) last_work =
       (Inl (User_exception ''x''), Work_finished (deallocate 0 last_work))
     \<and> M_outstanding_work
         (snd (Complete invoke (0, \<lparr>M_func = Throw (User_exception ''x''), M_owner = Some 7\<rparr>)
                last_work)) = M_outstanding_work (deallocate 0 last_work) - 1"
    using work_finished_exactly_once
      [of invoke "Throw (User_exception ''x'')" 0 last_work "Inl (User_exception ''x'')"
          "deallocate 0 last_work" 7 "\<lparr>M_func = Return, M_owner = None\<rparr>"] h
    by blast
  then show ?thesis
    using h ow by (auto simp: deallocate_def)
qed

text \<open>
  C1, as the specification words it, fails: with one unit of work outstanding, a
  callable that asks \<open>stopped()\<close> is told no and returns, where after
  \<open>work_finished\<close> it would have been told yes (and, here, throw).
\<close>

theorem Complete_finishing_first_counterexample:
  "fst (Complete invoke (0, \<lparr>M_func = probe, M_owner = Some 7\<rparr>) last_work) = Inr ()
   \<and> fst (Complete_finishing_first invoke (0, \<lparr>M_func = probe, M_owner = Some 7\<rparr>) last_work) =
        Inl (User_exception ''stopped'')
   \<and> Complete invoke (0, \<lparr>M_func = probe, M_owner = Some 7\<rparr>) last_work \<noteq>
       Complete_finishing_first invoke (0, \<lparr>M_func = probe, M_owner = Some 7\<rparr>) last_work"
proof -
  have a: "fst (Complete invoke (0, \<lparr>M_func = probe, M_owner = Some 7\<rparr>) last_work) = Inr ()"
    by (simp add: Complete_owned probe_def last_work_def scheduler_ctor_def Work_started_def
        deallocate_def Stopped_def emit_def)
  have b: "fst (Complete_finishing_first invoke (0, \<lparr>M_func = probe, M_owner = Some 7\<rparr>) last_work) =
        Inl (User_exception ''stopped'')"
    by (simp add: Complete_finishing_first_def probe_def last_work_def scheduler_ctor_def
        Work_started_def Work_finished_def Stop_def deallocate_def Stopped_def emit_def)
  from a b show ?thesis by auto
qed

text \<open>
  C1, amended: \<open>_Complete\<close> calls the callable in the world it was entered in, but for
  the freed block: the counter, the stopped flag, the queue and the call stack are as
  at entry, so the counter still includes the operation; \<open>_Work_finished\<close> runs after
  the callable has returned or thrown.
\<close>

theorem Complete_calls_before_work_finished:
  "Complete call (p, \<lparr>M_func = f, M_owner = Some k\<rparr>) w =
     (case call f (deallocate p w) of (r, w2) \<Rightarrow> (r, Work_finished w2))
   \<and> M_outstanding_work (deallocate p w) = M_outstanding_work w
   \<and> M_stopped (deallocate p w) = M_stopped w
   \<and> M_queue (deallocate p w) = M_queue w
   \<and> call_stack (deallocate p w) = call_stack w"
  by (simp add: Complete_owned deallocate_def split: prod.splits)

subsection \<open>No operation is lost\<close>

lemma framed_iff:
  "framed w \<longleftrightarrow>
     (\<exists>c cs. call_stack w = (this_ptr w, c) # cs \<and> (M_one_thread w \<or> M_private_queue c = []))"
  by (auto simp: framed_def split: list.splits)

lemma upt_split: "a \<le> b \<Longrightarrow> b \<le> c \<Longrightarrow> [a..<b] @ [b..<c] = [a..<c]"
  by (metis le_Suc_ex upt_add_eq_append)

lemma conserves_refl: "framed w \<Longrightarrow> conserves w w"
  by (simp add: conserves_def)

lemma conserves_trans:
  assumes "conserves w w'" and "conserves w' w''"
  shows "conserves w w''"
proof -
  have le: "next_block w \<le> next_block w'" "next_block w' \<le> next_block w''"
    using assms by (simp_all add: conserves_def)
  have "lineup w'' = lineup w @ ([next_block w..<next_block w'] @ [next_block w'..<next_block w''])"
    using assms by (simp add: conserves_def)
  then have "lineup w'' = lineup w @ [next_block w..<next_block w'']"
    using upt_split[OF le] by simp
  moreover have "prefix (upcalls w) (upcalls w'')"
    using assms by (auto simp: conserves_def intro: prefix_order.trans)
  ultimately show ?thesis using assms le by (simp add: conserves_def)
qed

lemma conserves_framed: "conserves w w' \<Longrightarrow> framed w'"
  by (simp add: conserves_def)

lemma conserves_Post: "framed w \<Longrightarrow> conserves w (Post f w)"
  by (auto simp: conserves_def Post_def allocate_def scheduler_op_ctor_def Work_started_def
      Let_def op_queue_Push_def emit_def framed_iff lineup_def top_private_def)

lemma conserves_Stop: "framed w \<Longrightarrow> conserves w (Stop w)"
  by (auto simp add: conserves_def Stop_def emit_def framed_iff lineup_def top_private_def)

lemma conserves_Reset: "framed w \<Longrightarrow> conserves w (Reset w)"
  by (auto simp add: conserves_def Reset_def emit_def framed_iff lineup_def top_private_def)

lemma conserves_Stopped: "framed w \<Longrightarrow> conserves w (snd (Stopped w))"
  by (auto simp add: conserves_def Stopped_def emit_def framed_iff lineup_def top_private_def)

lemma conserves_Work_finished: "framed w \<Longrightarrow> conserves w (Work_finished w)"
  by (auto simp add: conserves_def Work_finished_def Let_def Stop_def emit_def framed_iff
      lineup_def top_private_def)

lemma conserves_scheduler_op_dtor: "framed w \<Longrightarrow> conserves w (scheduler_op_dtor s w)"
  by (simp add: scheduler_op_dtor_def conserves_Work_finished conserves_refl split: option.splits)

lemma conserves_now: "framed w \<Longrightarrow> conserves w (snd (now w))"
  by (auto simp add: conserves_def now_def framed_iff lineup_def top_private_def split: list.splits)

lemma framed_Contains: "framed w \<Longrightarrow> Contains (this_ptr w) (call_stack w) \<noteq> None"
  by (auto simp: framed_iff)

lemma invoke_conserves: "framed w \<Longrightarrow> conserves w (snd (invoke f w))"
proof (induction f w rule: invoke.induct)
  case (1 w)
  then show ?case by (simp add: conserves_refl)
next
  case (2 x w)
  then show ?case by (simp add: conserves_refl)
next
  case (3 g rest w)
  have a: "conserves w (Post g w)" using 3(2) by (rule conserves_Post)
  have b: "conserves (Post g w) (snd (invoke rest (Post g w)))"
    by (rule 3(1)[OF conserves_framed[OF a]])
  show ?case using conserves_trans[OF a b] by simp
next
  case (4 g rest w)
  have d: "Dispatch invoke g w = invoke g w"
    using 4(3) by (simp add: Dispatch_def framed_Contains)
  have c1: "conserves w (snd (invoke g w))"
    by (rule 4(1)[OF 4(3)])
  show ?case
  proof (cases "invoke g w")
    case (Pair r w')
    have c1': "conserves w w'" using c1 Pair by simp
    show ?thesis
    proof (cases r)
      case (Inl x)
      then show ?thesis using c1' Pair d by simp
    next
      case (Inr u)
      have e: "(r, w') = Dispatch invoke g w" using Pair d by simp
      have c2: "conserves w' (snd (invoke rest w'))"
        by (rule 4(2)[OF e Inr conserves_framed[OF c1']])
      show ?thesis using conserves_trans[OF c1' c2] Pair Inr d by simp
    qed
  qed
next
  case (5 a b w)
  obtain s w' where sw: "Stopped w = (s, w')" by (cases "Stopped w")
  have c1: "conserves w w'" using conserves_Stopped[OF 5(3)] sw by simp
  note fr = conserves_framed[OF c1]
  show ?case
  proof (cases s)
    case True
    have c2: "conserves w' (snd (invoke a w'))"
      by (rule 5(1)[OF sw[symmetric] True fr])
    show ?thesis using conserves_trans[OF c1 c2] sw True by simp
  next
    case False
    have c2: "conserves w' (snd (invoke b w'))"
      by (rule 5(2)[OF sw[symmetric] False fr])
    show ?thesis using conserves_trans[OF c1 c2] sw False by simp
  qed
next
  case (6 rest w)
  have a: "conserves w (Stop w)" using 6(2) by (rule conserves_Stop)
  have b: "conserves (Stop w) (snd (invoke rest (Stop w)))"
    by (rule 6(1)[OF conserves_framed[OF a]])
  show ?case using conserves_trans[OF a b] by simp
next
  case (7 rest w)
  have a: "conserves w (Reset w)" using 7(2) by (rule conserves_Reset)
  have b: "conserves (Reset w) (snd (invoke rest (Reset w)))"
    by (rule 7(1)[OF conserves_framed[OF a]])
  show ?case using conserves_trans[OF a b] by simp
qed

lemma invoke_well_scoped: "well_scoped invoke"
  by (simp add: well_scoped_def invoke_conserves)


lemma complete_front_counts_one:
  "complete_front call w = Some (Inr k, w') \<Longrightarrow> k = 1"
  by (auto simp: complete_front_def Let_def split: option.splits prod.splits sum.splits)

lemma conserves_complete_front:
  assumes ws: "well_scoped call" and fr: "framed w" and res: "complete_front call w = Some (r, w')"
  shows "conserves w w'"
proof -
  obtain c cs where st: "call_stack w = (this_ptr w, c) # cs"
    and pq: "M_one_thread w \<or> M_private_queue c = []"
    using fr by (auto simp: framed_iff)
  obtain op rest where q: "M_queue w = op # rest"
    using res by (cases "M_queue w") (auto simp: complete_front_def op_queue_Front_def)
  define w3 where "w3 = lock_unlock
     (if \<not> M_one_thread w \<and> rest \<noteq> [] then emit [Notify_one] (w\<lparr>M_queue := rest\<rparr>)
      else w\<lparr>M_queue := rest\<rparr>)"
  define w4 where "w4 = deallocate (fst op) (w3\<lparr>upcalls := upcalls w3 @ [fst op]\<rparr>)"
  define w5 where "w5 = snd (call (M_func (snd op)) w4)"
  have w3: "this_ptr w3 = this_ptr w" "next_block w3 = next_block w" "upcalls w3 = upcalls w"
    "M_queue w3 = rest" "call_stack w3 = (this_ptr w, c\<lparr>M_lock_owns := False\<rparr>) # cs"
    "M_one_thread w3 = M_one_thread w"
    by (simp_all add: w3_def lock_unlock_def emit_def st)
  have w4: "this_ptr w4 = this_ptr w" "next_block w4 = next_block w" "upcalls w4 = upcalls w @ [fst op]"
    "M_queue w4 = rest" "call_stack w4 = (this_ptr w, c\<lparr>M_lock_owns := False\<rparr>) # cs"
    "M_one_thread w4 = M_one_thread w"
    by (simp_all add: w4_def deallocate_def w3)
  have c04: "conserves w w4"
    using pq by (simp add: conserves_def w4 framed_iff st lineup_def top_private_def q)
  have c45: "conserves w4 w5"
    using ws conserves_framed[OF c04] by (simp add: well_scoped_def w5_def)
  have "complete_front call w = Some (case fst (call (M_func (snd op)) w4) of Inl x \<Rightarrow> Inl x | Inr _ \<Rightarrow> Inr 1,
      scheduler_op_dtor (snd op) w5)"
    by (simp add: complete_front_def op_queue_Front_def op_queue_Pop_def op_queue_Empty_def q
        Complete_eq w3_def w4_def w5_def Let_def)
  then have "w' = scheduler_op_dtor (snd op) w5"
    using res by simp
  then have c5: "conserves w5 w'"
    using conserves_scheduler_op_dtor[OF conserves_framed[OF c45]] by simp
  show ?thesis by (rule conserves_trans[OF conserves_trans[OF c04 c45] c5])
qed

lemma conserves_Do_run_one:
  "well_scoped call \<Longrightarrow> framed w \<Longrightarrow> Do_run_one call w = Some (r, w') \<Longrightarrow> conserves w w'"
  by (auto simp: Do_run_one_def conserves_refl conserves_complete_front split: if_splits)

lemma conserves_Do_poll_one:
  "well_scoped call \<Longrightarrow> framed w \<Longrightarrow> Do_poll_one call w = Some (r, w') \<Longrightarrow> conserves w w'"
  by (auto simp: Do_poll_one_def conserves_refl conserves_complete_front split: if_splits)

lemma conserves_emit: "framed w \<Longrightarrow> conserves w (emit es w)"
  by (auto simp add: conserves_def emit_def framed_iff lineup_def top_private_def)

lemma conserves_Do_run_one_until:
  assumes ws: "well_scoped call" and fr: "framed w" and res: "Do_run_one_until call t w = Some (r, w')"
  shows "conserves w w'"
proof -
  obtain t0 w0 where n: "now w = (t0, w0)" by (cases "now w")
  have c0: "conserves w w0" using conserves_now[OF fr] n by simp
  note f0 = conserves_framed[OF c0]
  have "conserves w0 w'"
    using res n f0 ws
    by (auto simp: Do_run_one_until_def conserves_refl conserves_emit conserves_complete_front
        split: if_splits)
  then show ?thesis by (rule conserves_trans[OF c0])
qed

lemma Context_Lock_framed:
  "framed w \<Longrightarrow> conserves w (Context_Lock w) \<and> top_private (Context_Lock w) = []"
  by (auto simp: framed_iff conserves_def Context_Lock_def emit_def lineup_def top_private_def
      op_queue_Empty_def op_queue_Push_all_def Let_def)

lemma conserves_Context_Lock: "framed w \<Longrightarrow> conserves w (Context_Lock w)"
  by (simp add: Context_Lock_framed)


lemma conserves_run_loop_aux:
  assumes "run_loop step n w = Some y"
  shows "(\<forall>v r v'. framed v \<longrightarrow> step v = Some (r, v') \<longrightarrow> conserves v v') \<longrightarrow>
         framed w \<longrightarrow> conserves w (snd y)"
proof (rule run_loop.raw_induct
    [where P = "\<lambda>step n w y. (\<forall>v r v'. framed v \<longrightarrow> step v = Some (r, v') \<longrightarrow> conserves v v') \<longrightarrow>
                  framed w \<longrightarrow> conserves w (snd y)", OF _ assms])
  fix loop :: "('a world \<Rightarrow> (size_t, 'a) outcome option) \<Rightarrow> size_t \<Rightarrow> 'a world
                 \<Rightarrow> (size_t, 'a) outcome option"
  fix step n w y
  assume IH: "\<And>st m v z. loop st m v = Some z \<Longrightarrow>
      (\<forall>v r v'. framed v \<longrightarrow> st v = Some (r, v') \<longrightarrow> conserves v v') \<longrightarrow>
      framed v \<longrightarrow> conserves v (snd z)"
  assume body: "(case step w of
        None \<Rightarrow> None
      | Some (Inl x, w') \<Rightarrow> Some (Inl x, w')
      | Some (Inr k, w') \<Rightarrow>
          if k = 0 then Some (Inr n, w')
          else loop step (if n \<noteq> - 1 then n + 1 else n) (Context_Lock w')) = Some y"
  show "(\<forall>v r v'. framed v \<longrightarrow> step v = Some (r, v') \<longrightarrow> conserves v v') \<longrightarrow>
         framed w \<longrightarrow> conserves w (snd y)"
  proof (intro impI)
    assume step: "\<forall>v r v'. framed v \<longrightarrow> step v = Some (r, v') \<longrightarrow> conserves v v'"
      and fr: "framed w"
    from body obtain r v where sv: "step w = Some (r, v)"
      by (cases "step w") auto
    have c1: "conserves w v" using step fr sv by blast
    show "conserves w (snd y)"
    proof (cases r)
      case (Inl x)
      then show ?thesis using body sv c1 by auto
    next
      case (Inr k)
      show ?thesis
      proof (cases "k = 0")
        case True
        then show ?thesis using body sv c1 Inr by auto
      next
        case False
        have c2: "conserves v (Context_Lock v)"
          by (rule conserves_Context_Lock[OF conserves_framed[OF c1]])
        have rec: "loop step (if n \<noteq> - 1 then n + 1 else n) (Context_Lock v) = Some y"
          using body sv Inr False by simp
        have c3: "conserves (Context_Lock v) (snd y)"
          using IH[OF rec] step conserves_framed[OF c2] by blast
        show ?thesis by (rule conserves_trans[OF conserves_trans[OF c1 c2] c3])
      qed
    qed
  qed
qed

lemma conserves_run_loop:
  assumes "\<And>v r v'. framed v \<Longrightarrow> step v = Some (r, v') \<Longrightarrow> conserves v v'"
    and "run_loop step n w = Some (r, w')" and "framed w"
  shows "conserves w w'"
  using conserves_run_loop_aux[OF assms(2)] assms(1,3) by auto

lemma run_loop_returns_aux:
  assumes "run_loop step n w = Some y"
  shows "(\<forall>v r v'. framed v \<longrightarrow> step v = Some (r, v') \<longrightarrow> conserves v v') \<longrightarrow>
         (\<forall>v v'. step v = Some (Inr 0, v') \<longrightarrow> v' = v \<and> Q v) \<longrightarrow>
         framed w \<longrightarrow> top_private w = [] \<longrightarrow>
         (\<forall>m. fst y = Inr m \<longrightarrow> Q (snd y) \<and> top_private (snd y) = [])"
proof (rule run_loop.raw_induct
    [where P = "\<lambda>step n w y. (\<forall>v r v'. framed v \<longrightarrow> step v = Some (r, v') \<longrightarrow> conserves v v') \<longrightarrow>
         (\<forall>v v'. step v = Some (Inr 0, v') \<longrightarrow> v' = v \<and> Q v) \<longrightarrow>
         framed w \<longrightarrow> top_private w = [] \<longrightarrow>
         (\<forall>m. fst y = Inr m \<longrightarrow> Q (snd y) \<and> top_private (snd y) = [])", OF _ assms])
  fix loop :: "('a world \<Rightarrow> (size_t, 'a) outcome option) \<Rightarrow> size_t \<Rightarrow> 'a world
                 \<Rightarrow> (size_t, 'a) outcome option"
  fix step n w y
  assume IH: "\<And>st m v z. loop st m v = Some z \<Longrightarrow>
      (\<forall>v r v'. framed v \<longrightarrow> st v = Some (r, v') \<longrightarrow> conserves v v') \<longrightarrow>
      (\<forall>v v'. st v = Some (Inr 0, v') \<longrightarrow> v' = v \<and> Q v) \<longrightarrow>
      framed v \<longrightarrow> top_private v = [] \<longrightarrow>
      (\<forall>m. fst z = Inr m \<longrightarrow> Q (snd z) \<and> top_private (snd z) = [])"
  assume body: "(case step w of
        None \<Rightarrow> None
      | Some (Inl x, w') \<Rightarrow> Some (Inl x, w')
      | Some (Inr k, w') \<Rightarrow>
          if k = 0 then Some (Inr n, w')
          else loop step (if n \<noteq> - 1 then n + 1 else n) (Context_Lock w')) = Some y"
  show "(\<forall>v r v'. framed v \<longrightarrow> step v = Some (r, v') \<longrightarrow> conserves v v') \<longrightarrow>
         (\<forall>v v'. step v = Some (Inr 0, v') \<longrightarrow> v' = v \<and> Q v) \<longrightarrow>
         framed w \<longrightarrow> top_private w = [] \<longrightarrow>
         (\<forall>m. fst y = Inr m \<longrightarrow> Q (snd y) \<and> top_private (snd y) = [])"
  proof (intro impI allI)
    fix m
    assume step: "\<forall>v r v'. framed v \<longrightarrow> step v = Some (r, v') \<longrightarrow> conserves v v'"
      and quiet: "\<forall>v v'. step v = Some (Inr 0, v') \<longrightarrow> v' = v \<and> Q v"
      and fr: "framed w" and idle: "top_private w = []" and ym: "fst y = Inr m"
    from body obtain r v where sv: "step w = Some (r, v)"
      by (cases "step w") auto
    have c1: "conserves w v" using step fr sv by blast
    show "Q (snd y) \<and> top_private (snd y) = []"
    proof (cases r)
      case (Inl x)
      then show ?thesis using body sv ym by auto
    next
      case (Inr k)
      show ?thesis
      proof (cases "k = 0")
        case True
        then have "v = w \<and> Q w" using quiet sv Inr by blast
        then show ?thesis using body sv Inr True idle by auto
      next
        case False
        note cl = Context_Lock_framed[OF conserves_framed[OF c1]]
        have rec: "loop step (if n \<noteq> - 1 then n + 1 else n) (Context_Lock v) = Some y"
          using body sv Inr False by simp
        show ?thesis
          using IH[OF rec] step quiet cl conserves_framed ym by blast
      qed
    qed
  qed
qed

lemma Do_run_one_quiet: "Do_run_one call v = Some (Inr 0, v') \<Longrightarrow> v' = v \<and> M_stopped v"
  by (auto simp: Do_run_one_def split: if_splits dest: complete_front_counts_one)

lemma Do_poll_one_quiet:
  "Do_poll_one call v = Some (Inr 0, v') \<Longrightarrow> v' = v \<and> (M_stopped v \<or> M_queue v = [])"
  by (auto simp: Do_poll_one_def op_queue_Empty_def split: if_splits dest: complete_front_counts_one)


lemma Context_dtor_top:
  assumes "call_stack v = (k, c) # cs"
  shows "M_queue (Context_dtor v) = M_queue v @ M_private_queue c"
    and "call_stack (Context_dtor v) = cs"
    and "freed (Context_dtor v) = freed v"
    and "upcalls (Context_dtor v) = upcalls v"
    and "next_block (Context_dtor v) = next_block v"
    and "M_stopped (Context_dtor v) = M_stopped v"
    and "trace (Context_dtor v) =
           trace v @ (if M_private_queue c \<noteq> [] \<and> \<not> M_lock_owns c then [Mutex_lock] else [])
                   @ (if M_private_queue c \<noteq> [] \<or> M_lock_owns c then [Mutex_unlock] else [])"
  using assms
  by (auto simp: Context_dtor_def op_queue_Empty_def op_queue_Push_all_def emit_def Let_def)

lemma Context_ctor_framed:
  "framed (Context_ctor w)" "this_ptr (Context_ctor w) = this_ptr w"
  "next_block (Context_ctor w) = next_block w"
  "lineup (Context_ctor w) = upcalls w @ map fst (M_queue w)"
  "tl (call_stack (Context_ctor w)) = call_stack w"
  "top_private (Context_ctor w) = []"
  by (simp_all add: Context_ctor_def emit_def framed_iff lineup_def top_private_def)

lemma in_Context_exit:
  assumes body: "\<And>v r v'. framed v \<Longrightarrow> body v = Some (r, v') \<Longrightarrow> conserves v v'"
    and res: "in_Context body w = Some (r, w')"
  shows "\<exists>v c. body (Context_ctor w) = Some (r, v)
            \<and> call_stack v = (this_ptr w, c) # call_stack w \<and> w' = Context_dtor v
            \<and> next_block w \<le> next_block v
            \<and> upcalls v @ map fst (M_queue v) @ map fst (M_private_queue c) =
                upcalls w @ map fst (M_queue w) @ [next_block w..<next_block v]"
proof -
  from res obtain v where bv: "body (Context_ctor w) = Some (r, v)" and w': "w' = Context_dtor v"
    by (auto simp: in_Context_def split: option.splits)
  have c: "conserves (Context_ctor w) v"
    by (rule body[OF Context_ctor_framed(1) bv])
  then obtain c' cs where st: "call_stack v = (this_ptr v, c') # cs"
    by (auto simp: conserves_def framed_iff)
  have "cs = call_stack w" "this_ptr v = this_ptr w"
    using c st by (simp_all add: conserves_def Context_ctor_framed)
  moreover have "lineup v = upcalls v @ map fst (M_queue v) @ map fst (M_private_queue c')"
    by (simp add: lineup_def top_private_def st)
  ultimately show ?thesis
    using c st w' bv by (auto simp: conserves_def Context_ctor_framed)
qed

lemma scoped_exit:
  assumes body: "\<And>v r v'. framed v \<Longrightarrow> body v = Some (r, v') \<Longrightarrow> conserves v v'"
    and res: "(if M_outstanding_work w = 0 then Some (Inr 0, Stop w) else in_Context body w) = Some (r, w')"
  shows "call_stack w' = call_stack w
     \<and> upcalls w' @ map fst (M_queue w') = upcalls w @ map fst (M_queue w) @ [next_block w..<next_block w']
     \<and> (M_outstanding_work w \<noteq> 0 \<longrightarrow>
          (\<exists>v c. body (Context_ctor w) = Some (r, v)
             \<and> call_stack v = (this_ptr w, c) # call_stack w \<and> w' = Context_dtor v
             \<and> M_queue w' = M_queue v @ M_private_queue c
             \<and> upcalls w' = upcalls v \<and> freed w' = freed v
             \<and> trace w' = trace v
                  @ (if M_private_queue c \<noteq> [] \<and> \<not> M_lock_owns c then [Mutex_lock] else [])
                  @ (if M_private_queue c \<noteq> [] \<or> M_lock_owns c then [Mutex_unlock] else [])))"
proof (cases "M_outstanding_work w = 0")
  case True
  then have "w' = Stop w" using res by simp
  then show ?thesis using True by (simp add: Stop_def emit_def)
next
  case False
  then have ic: "in_Context body w = Some (r, w')" using res by simp
  have "\<exists>v c. body (Context_ctor w) = Some (r, v)
            \<and> call_stack v = (this_ptr w, c) # call_stack w \<and> w' = Context_dtor v
            \<and> next_block w \<le> next_block v
            \<and> upcalls v @ map fst (M_queue v) @ map fst (M_private_queue c) =
                upcalls w @ map fst (M_queue w) @ [next_block w..<next_block v]"
  proof (rule in_Context_exit)
    show "in_Context body w = Some (r, w')" by (rule ic)
    show "\<And>v r v'. framed v \<Longrightarrow> body v = Some (r, v') \<Longrightarrow> conserves v v'" by (rule body)
  qed
  then obtain v c where bv: "body (Context_ctor w) = Some (r, v)"
    and st: "call_stack v = (this_ptr w, c) # call_stack w" and w': "w' = Context_dtor v"
    and acc: "upcalls v @ map fst (M_queue v) @ map fst (M_private_queue c) =
                upcalls w @ map fst (M_queue w) @ [next_block w..<next_block v]"
    by blast
  show ?thesis
    using acc Context_dtor_top[OF st] st w' bv by auto
qed

lemma drained_on_return:
  assumes ws: "well_scoped call"
    and nx: "next \<in> {Run call, Poll call}"
    and res: "next w = Some (Inr n, w')"
  shows "M_stopped w' \<or> M_queue w' = []"
proof (cases "M_outstanding_work w = 0")
  case True
  then have "w' = Stop w" using nx res by (auto simp: Run_def Poll_def)
  then show ?thesis by (simp add: Stop_def emit_def)
next
  case False
  define step where "step = (if next = Run call then Do_run_one call else Do_poll_one call)"
  have cons: "\<And>v r v'. framed v \<Longrightarrow> step v = Some (r, v') \<Longrightarrow> conserves v v'"
    using conserves_Do_run_one[OF ws] conserves_Do_poll_one[OF ws]
    by (auto simp: step_def split: if_splits)
  have quiet: "\<And>v v'. step v = Some (Inr 0, v') \<Longrightarrow> v' = v \<and> (M_stopped v \<or> M_queue v = [])"
    using Do_run_one_quiet Do_poll_one_quiet by (fastforce simp: step_def split: if_splits)
  have "in_Context (run_loop step 0) w = Some (Inr n, w')"
    using nx res False by (auto simp: step_def Run_def Poll_def)
  then obtain v where bv: "run_loop step 0 (Context_ctor w) = Some (Inr n, v)"
    and w': "w' = Context_dtor v"
    by (auto simp: in_Context_def split: option.splits)
  have fv: "framed v"
    using conserves_run_loop[of step, OF cons bv Context_ctor_framed(1)] by (simp add: conserves_def)
  have "(M_stopped v \<or> M_queue v = []) \<and> top_private v = []"
    using run_loop_returns_aux[OF bv, of "\<lambda>v. M_stopped v \<or> M_queue v = []"] cons quiet
      Context_ctor_framed(1,6)[of w]
    by auto
  moreover obtain c cs where st: "call_stack v = (this_ptr v, c) # cs"
    using fv by (auto simp: framed_iff)
  ultimately show ?thesis
    using Context_dtor_top[OF st] w' by (auto simp: top_private_def)
qed


lemma complete_front_progress:
  assumes ws: "well_scoped call" and fr: "framed w" and q: "M_queue w = op # rest"
  shows "\<exists>r w'. complete_front call w = Some (r, w') \<and> prefix (upcalls w @ [fst op]) (upcalls w')"
proof -
  obtain c cs where st: "call_stack w = (this_ptr w, c) # cs"
    and pq: "M_one_thread w \<or> M_private_queue c = []"
    using fr by (auto simp: framed_iff)
  define w3 where "w3 = lock_unlock
     (if \<not> M_one_thread w \<and> rest \<noteq> [] then emit [Notify_one] (w\<lparr>M_queue := rest\<rparr>)
      else w\<lparr>M_queue := rest\<rparr>)"
  define w4 where "w4 = deallocate (fst op) (w3\<lparr>upcalls := upcalls w3 @ [fst op]\<rparr>)"
  define w5 where "w5 = snd (call (M_func (snd op)) w4)"
  have w4: "this_ptr w4 = this_ptr w" "upcalls w4 = upcalls w @ [fst op]"
    "call_stack w4 = (this_ptr w, c\<lparr>M_lock_owns := False\<rparr>) # cs"
    "M_one_thread w4 = M_one_thread w"
    by (simp_all add: w4_def w3_def deallocate_def lock_unlock_def emit_def st)
  have "framed w4"
    using pq by (simp add: framed_iff w4)
  then have "conserves w4 w5"
    using ws by (simp add: well_scoped_def w5_def)
  then have p5: "prefix (upcalls w @ [fst op]) (upcalls w5)"
    by (simp add: conserves_def w4)
  have cf: "complete_front call w = Some (case fst (call (M_func (snd op)) w4) of Inl x \<Rightarrow> Inl x | Inr _ \<Rightarrow> Inr 1,
      scheduler_op_dtor (snd op) w5)"
    by (simp add: complete_front_def op_queue_Front_def op_queue_Pop_def op_queue_Empty_def q
        Complete_eq w3_def w4_def w5_def Let_def)
  have "upcalls (scheduler_op_dtor (snd op) w5) = upcalls w5"
    by (simp add: scheduler_op_dtor_def Work_finished_def Stop_def emit_def Let_def
        split: option.splits)
  then show ?thesis using cf p5 by simp
qed

lemma upcalls_Context_dtor: "upcalls (Context_dtor v) = upcalls v"
  by (auto simp: Context_dtor_def op_queue_Empty_def op_queue_Push_all_def emit_def Let_def
      split: list.splits)

lemma Run_one_progress:
  assumes ws: "well_scoped call" and ns: "\<not> M_stopped w" and ow: "M_outstanding_work w \<noteq> 0"
    and q: "M_queue w = op # rest"
  shows "\<exists>r w'. Run_one call w = Some (r, w') \<and> prefix (upcalls w @ [fst op]) (upcalls w')"
proof -
  have c: "M_queue (Context_ctor w) = op # rest" "\<not> M_stopped (Context_ctor w)"
    "upcalls (Context_ctor w) = upcalls w"
    using ns q by (simp_all add: Context_ctor_def emit_def)
  from complete_front_progress[OF ws Context_ctor_framed(1) c(1)] c(3)
  obtain r v where cf: "complete_front call (Context_ctor w) = Some (r, v)"
    and p: "prefix (upcalls w @ [fst op]) (upcalls v)"
    by auto
  have "Do_run_one call (Context_ctor w) = Some (r, v)"
    using cf c by (simp add: Do_run_one_def op_queue_Empty_def)
  then have "Run_one call w = Some (r, Context_dtor v)"
    using ow by (simp add: Run_one_def in_Context_def)
  then show ?thesis using p by (simp add: upcalls_Context_dtor)
qed

text \<open>
  C5: for every well-scoped callable semantics and each of run, run\_one, run\_until,
  run\_for, poll and poll\_one, taken with the loop or primitive it runs inside the
  scope of its \<open>_Context\<close> and the world in which that scope opens: when the call is
  left, by return or by an exception of a callable (\<open>r\<close> is either),
  \<^item> the thread's call stack is as at entry;
  \<^item> the operations handed to \<open>_Complete\<close> so far followed by the global queue are what
    they were at entry followed by every operation allocated during the call, in
    order: each operation posted is in the global queue or has been completed, none
    is left in a private queue and none was dropped;
  \<^item> past the entry check, the world at exit is the destructor of \<open>_Context\<close> applied to
    the world \<open>v\<close> in which the loop or primitive was left, where the run's context
    \<open>c\<close> is on top: the destructor appended the private queue of \<open>c\<close> to the tail of
    the global queue, locking the mutex first when that queue was not empty and the
    lock was not owned, and completed or freed nothing;
  \<^item> a following run or poll that returns leaves the scheduler stopped or the global
    queue empty, having completed the operations in the order they were left in;
  \<^item> a following run\_one, when work is outstanding, the scheduler is not stopped and
    the global queue is not empty, is left (it does not block) with the head of the
    queue handed to \<open>_Complete\<close>.
\<close>

theorem no_operation_lost_on_exit:
  assumes "well_scoped call"
    and "(entry, body, w0) \<in>
           {(Run call, run_loop (Do_run_one call) 0, w),
            (Run_one call, Do_run_one call, w),
            (Run_until call abs_time, run_loop (Do_run_one_until call abs_time) 0, w),
            (Run_for call rel_time, run_loop (Do_run_one_until call (clock w + rel_time)) 0,
               snd (now w)),
            (Poll call, run_loop (Do_poll_one call) 0, w),
            (Poll_one call, Do_poll_one call, w)}"
    and "entry w = Some (r, w')"
  shows "call_stack w' = call_stack w
     \<and> upcalls w' @ map fst (M_queue w') = upcalls w @ map fst (M_queue w) @ [next_block w..<next_block w']
     \<and> (M_outstanding_work w \<noteq> 0 \<longrightarrow>
          (\<exists>v c. body (Context_ctor w0) = Some (r, v)
             \<and> call_stack v = (this_ptr w, c) # call_stack w \<and> w' = Context_dtor v
             \<and> M_queue w' = M_queue v @ M_private_queue c
             \<and> upcalls w' = upcalls v \<and> freed w' = freed v
             \<and> trace w' = trace v
                  @ (if M_private_queue c \<noteq> [] \<and> \<not> M_lock_owns c then [Mutex_lock] else [])
                  @ (if M_private_queue c \<noteq> [] \<or> M_lock_owns c then [Mutex_unlock] else [])))
     \<and> (next \<in> {Run call, Poll call} \<longrightarrow> next w' = Some (Inr n, w'') \<longrightarrow>
          (M_stopped w'' \<or> M_queue w'' = [])
          \<and> upcalls w'' @ map fst (M_queue w'') =
              upcalls w' @ map fst (M_queue w') @ [next_block w'..<next_block w''])
     \<and> (\<not> M_stopped w' \<and> M_outstanding_work w' \<noteq> 0 \<and> M_queue w' = op # rest \<longrightarrow>
          (\<exists>r2 w2. Run_one call w' = Some (r2, w2)
             \<and> prefix (upcalls w' @ [fst op]) (upcalls w2)))"
proof -
  note ws = assms(1)
  have progress: "\<not> M_stopped w' \<and> M_outstanding_work w' \<noteq> 0 \<and> M_queue w' = op # rest \<longrightarrow>
          (\<exists>r2 w2. Run_one call w' = Some (r2, w2)
             \<and> prefix (upcalls w' @ [fst op]) (upcalls w2))"
    using Run_one_progress[OF ws] by blast
  have run: "\<And>v r v'. framed v \<Longrightarrow> run_loop (Do_run_one call) 0 v = Some (r, v') \<Longrightarrow> conserves v v'"
    by (rule conserves_run_loop[OF conserves_Do_run_one[OF ws]])
  have until: "\<And>t v r v'. framed v \<Longrightarrow> run_loop (Do_run_one_until call t) 0 v = Some (r, v')
      \<Longrightarrow> conserves v v'"
    by (rule conserves_run_loop[OF conserves_Do_run_one_until[OF ws]])
  have poll: "\<And>v r v'. framed v \<Longrightarrow> run_loop (Do_poll_one call) 0 v = Some (r, v') \<Longrightarrow> conserves v v'"
    by (rule conserves_run_loop[OF conserves_Do_poll_one[OF ws]])
  have drain: "next \<in> {Run call, Poll call} \<longrightarrow> next w' = Some (Inr n, w'') \<longrightarrow>
          (M_stopped w'' \<or> M_queue w'' = [])
          \<and> upcalls w'' @ map fst (M_queue w'') =
              upcalls w' @ map fst (M_queue w') @ [next_block w'..<next_block w'']"
  proof (intro impI)
    assume nx: "next \<in> {Run call, Poll call}" and res: "next w' = Some (Inr n, w'')"
    have a: "M_stopped w'' \<or> M_queue w'' = []"
      by (rule drained_on_return[OF ws nx res])
    from nx consider "next = Run call" | "next = Poll call" by blast
    then have "upcalls w'' @ map fst (M_queue w'') =
              upcalls w' @ map fst (M_queue w') @ [next_block w'..<next_block w'']"
    proof cases
      case 1
      have "call_stack w'' = call_stack w'
         \<and> upcalls w'' @ map fst (M_queue w'') =
             upcalls w' @ map fst (M_queue w') @ [next_block w'..<next_block w'']
         \<and> (M_outstanding_work w' \<noteq> 0 \<longrightarrow>
          (\<exists>v c. run_loop (Do_run_one call) 0 (Context_ctor w') = Some (Inr n, v)
             \<and> call_stack v = (this_ptr w', c) # call_stack w' \<and> w'' = Context_dtor v
             \<and> M_queue w'' = M_queue v @ M_private_queue c
             \<and> upcalls w'' = upcalls v \<and> freed w'' = freed v
             \<and> trace w'' = trace v
                  @ (if M_private_queue c \<noteq> [] \<and> \<not> M_lock_owns c then [Mutex_lock] else [])
                  @ (if M_private_queue c \<noteq> [] \<or> M_lock_owns c then [Mutex_unlock] else [])))"
        by (rule scoped_exit[where body = "run_loop (Do_run_one call) 0", OF run])
           (use res 1 in \<open>simp_all add: Run_def\<close>)
      then show ?thesis by blast
    next
      case 2
      have "call_stack w'' = call_stack w'
         \<and> upcalls w'' @ map fst (M_queue w'') =
             upcalls w' @ map fst (M_queue w') @ [next_block w'..<next_block w'']
         \<and> (M_outstanding_work w' \<noteq> 0 \<longrightarrow>
          (\<exists>v c. run_loop (Do_poll_one call) 0 (Context_ctor w') = Some (Inr n, v)
             \<and> call_stack v = (this_ptr w', c) # call_stack w' \<and> w'' = Context_dtor v
             \<and> M_queue w'' = M_queue v @ M_private_queue c
             \<and> upcalls w'' = upcalls v \<and> freed w'' = freed v
             \<and> trace w'' = trace v
                  @ (if M_private_queue c \<noteq> [] \<and> \<not> M_lock_owns c then [Mutex_lock] else [])
                  @ (if M_private_queue c \<noteq> [] \<or> M_lock_owns c then [Mutex_unlock] else [])))"
        by (rule scoped_exit[where body = "run_loop (Do_poll_one call) 0", OF poll])
           (use res 2 in \<open>simp_all add: Poll_def\<close>)
      then show ?thesis by blast
    qed
    with a show "(M_stopped w'' \<or> M_queue w'' = [])
          \<and> upcalls w'' @ map fst (M_queue w'') =
              upcalls w' @ map fst (M_queue w') @ [next_block w'..<next_block w'']"
      by blast
  qed
  from assms(2) consider
      "entry = Run call" "body = run_loop (Do_run_one call) 0" "w0 = w"
    | "entry = Run_one call" "body = Do_run_one call" "w0 = w"
    | "entry = Run_until call abs_time" "body = run_loop (Do_run_one_until call abs_time) 0" "w0 = w"
    | "entry = Run_for call rel_time"
      "body = run_loop (Do_run_one_until call (clock w + rel_time)) 0" "w0 = snd (now w)"
    | "entry = Poll call" "body = run_loop (Do_poll_one call) 0" "w0 = w"
    | "entry = Poll_one call" "body = Do_poll_one call" "w0 = w"
    by blast
  then have main: "call_stack w' = call_stack w0
     \<and> upcalls w' @ map fst (M_queue w') = upcalls w0 @ map fst (M_queue w0) @ [next_block w0..<next_block w']
     \<and> (M_outstanding_work w0 \<noteq> 0 \<longrightarrow>
          (\<exists>v c. body (Context_ctor w0) = Some (r, v)
             \<and> call_stack v = (this_ptr w0, c) # call_stack w0 \<and> w' = Context_dtor v
             \<and> M_queue w' = M_queue v @ M_private_queue c
             \<and> upcalls w' = upcalls v \<and> freed w' = freed v
             \<and> trace w' = trace v
                  @ (if M_private_queue c \<noteq> [] \<and> \<not> M_lock_owns c then [Mutex_lock] else [])
                  @ (if M_private_queue c \<noteq> [] \<or> M_lock_owns c then [Mutex_unlock] else [])))"
  proof cases
    case 1
    show ?thesis unfolding 1
      by (rule scoped_exit[OF run]) (use assms(3) 1 in \<open>simp_all add: Run_def\<close>)
  next
    case 2
    show ?thesis unfolding 2
      by (rule scoped_exit[OF conserves_Do_run_one[OF ws]])
         (use assms(3) 2 in \<open>simp_all add: Run_one_def\<close>)
  next
    case 3
    show ?thesis unfolding 3
      by (rule scoped_exit[OF until]) (use assms(3) 3 in \<open>simp_all add: Run_until_def\<close>)
  next
    case 4
    show ?thesis unfolding 4
      by (rule scoped_exit[OF until])
         (use assms(3) 4 in \<open>simp_all add: Run_for_eq Run_until_def\<close>)
  next
    case 5
    show ?thesis unfolding 5
      by (rule scoped_exit[OF poll]) (use assms(3) 5 in \<open>simp_all add: Poll_def\<close>)
  next
    case 6
    show ?thesis unfolding 6
      by (rule scoped_exit[OF conserves_Do_poll_one[OF ws]])
         (use assms(3) 6 in \<open>simp_all add: Poll_one_def\<close>)
  qed
  have same: "call_stack w0 = call_stack w" "upcalls w0 = upcalls w" "M_queue w0 = M_queue w"
    "next_block w0 = next_block w" "this_ptr w0 = this_ptr w"
    "M_outstanding_work w0 = M_outstanding_work w"
    using assms(2) by (auto simp: now_fields)
  show ?thesis
    using main drain progress unfolding same by blast
qed


lemma thrower_unwinds:
  "run_loop (Do_run_one invoke) 0 (Context_ctor thrower_world) =
     Some (Inl (User_exception ''x''), thrower_unwinding)"
  unfolding thrower_world_def thrower_def thrower_unwinding_def by code_simp

lemma thrower_run:
  "Run invoke thrower_world = Some (Inl (User_exception ''x''), thrower_exit)"
  unfolding thrower_world_def thrower_def thrower_exit_def by code_simp

lemma thrower_next_run:
  "Run invoke thrower_exit = Some (Inr 2, thrower_drained)"
  unfolding thrower_exit_def thrower_drained_def by code_simp

theorem no_operation_lost_on_exit_witness:
  "well_scoped invoke
   \<and> (Run invoke, run_loop (Do_run_one invoke) 0, thrower_world) \<in>
           {(Run invoke, run_loop (Do_run_one invoke) 0, thrower_world),
            (Run_one invoke, Do_run_one invoke, thrower_world),
            (Run_until invoke 0, run_loop (Do_run_one_until invoke 0) 0, thrower_world),
            (Run_for invoke 0, run_loop (Do_run_one_until invoke (clock thrower_world + 0)) 0,
               snd (now thrower_world)),
            (Poll invoke, run_loop (Do_poll_one invoke) 0, thrower_world),
            (Poll_one invoke, Do_poll_one invoke, thrower_world)}
   \<and> Run invoke thrower_world = Some (Inl (User_exception ''x''), thrower_exit)
   \<and> call_stack thrower_exit = call_stack thrower_world
   \<and> upcalls thrower_exit @ map fst (M_queue thrower_exit) =
       upcalls thrower_world @ map fst (M_queue thrower_world)
         @ [next_block thrower_world..<next_block thrower_exit]
   \<and> upcalls thrower_exit = [0] \<and> map fst (M_queue thrower_exit) = [1, 2]
   \<and> M_outstanding_work thrower_world \<noteq> 0
   \<and> run_loop (Do_run_one invoke) 0 (Context_ctor thrower_world) =
       Some (Inl (User_exception ''x''), thrower_unwinding)
   \<and> thrower_exit = Context_dtor thrower_unwinding
   \<and> M_queue thrower_unwinding = []
   \<and> trace thrower_exit = trace thrower_unwinding @ [Mutex_lock, Mutex_unlock]
   \<and> Run invoke \<in> {Run invoke, Poll invoke}
   \<and> Run invoke thrower_exit = Some (Inr 2, thrower_drained)
   \<and> M_queue thrower_drained = [] \<and> upcalls thrower_drained = [0, 1, 2]
   \<and> \<not> M_stopped thrower_exit \<and> M_outstanding_work thrower_exit \<noteq> 0
   \<and> map_option (\<lambda>(r, w). (r, upcalls w, map fst (M_queue w))) (Run_one invoke thrower_exit) =
       Some (Inr 1, [0, 1], [2])"
proof -
  have m: "(Run invoke, run_loop (Do_run_one invoke) 0, thrower_world) \<in>
           {(Run invoke, run_loop (Do_run_one invoke) 0, thrower_world),
            (Run_one invoke, Do_run_one invoke, thrower_world),
            (Run_until invoke 0, run_loop (Do_run_one_until invoke 0) 0, thrower_world),
            (Run_for invoke 0, run_loop (Do_run_one_until invoke (clock thrower_world + 0)) 0,
               snd (now thrower_world)),
            (Poll invoke, run_loop (Do_poll_one invoke) 0, thrower_world),
            (Poll_one invoke, Do_poll_one invoke, thrower_world)}"
    by simp
  have n: "Run invoke \<in> {Run invoke, Poll invoke}" by simp
  note t = no_operation_lost_on_exit
        [OF invoke_well_scoped m thrower_run, of "Run invoke" 2 thrower_drained
           "(1, \<lparr>M_func = Return, M_owner = Some 7\<rparr>)" "[(2, \<lparr>M_func = Return, M_owner = Some 7\<rparr>)]"]
  have a: "call_stack thrower_exit = call_stack thrower_world"
    using t by blast
  have b: "upcalls thrower_exit @ map fst (M_queue thrower_exit) =
       upcalls thrower_world @ map fst (M_queue thrower_world)
         @ [next_block thrower_world..<next_block thrower_exit]"
    using t by blast
  have c: "upcalls thrower_exit = [0]" "map fst (M_queue thrower_exit) = [1, 2]"
    by (simp_all add: thrower_exit_def)
  have w: "M_outstanding_work thrower_world \<noteq> 0"
    by (simp add: thrower_world_def Post_def scheduler_ctor_def allocate_def scheduler_op_ctor_def
        Work_started_def Let_def emit_def op_queue_Push_def op_queue_Front_def)
  have d: "thrower_exit = Context_dtor thrower_unwinding"
    by (simp add: Context_dtor_def thrower_unwinding_def thrower_exit_def op_queue_Empty_def
        op_queue_Push_all_def emit_def Let_def)
  have e: "M_queue thrower_unwinding = []"
    by (simp add: thrower_unwinding_def)
  have f: "trace thrower_exit = trace thrower_unwinding @ [Mutex_lock, Mutex_unlock]"
    by (simp add: thrower_unwinding_def thrower_exit_def)
  have g: "M_queue thrower_drained = []" "upcalls thrower_drained = [0, 1, 2]"
    by (simp_all add: thrower_drained_def)
  have h: "\<not> M_stopped thrower_exit" "M_outstanding_work thrower_exit \<noteq> 0"
    by (simp_all add: thrower_exit_def)
  have i: "map_option (\<lambda>(r, w). (r, upcalls w, map fst (M_queue w))) (Run_one invoke thrower_exit) =
       Some (Inr 1, [0, 1], [2])"
    unfolding thrower_exit_def by code_simp
  show ?thesis
    by (intro conjI) (fact invoke_well_scoped m thrower_run a b c w thrower_unwinds d e f n
        thrower_next_run g h i)+
qed

end
